theory Spec2Isabelle
  imports Main
begin

section \<open>JavaScript values used by the resolvers\<close>

text \<open>
  Instants are milliseconds since the epoch, as a JavaScript \<open>Date\<close> holds them.
  Strings are lists of code units; \<open>length\<close> is the JavaScript \<open>.length\<close>.
\<close>

type_synonym timestamp = int

text \<open>
  \<open>req.session.userId\<close> is a number or \<open>undefined\<close>. The resolvers test it with
  \<open>if (req.session.userId)\<close>, which is false for \<open>undefined\<close> and for \<open>0\<close>.
\<close>

definition truthy_id :: "int option \<Rightarrow> bool" where
  "truthy_id u = (case u of None \<Rightarrow> False | Some n \<Rightarrow> n \<noteq> 0)"

text \<open>A \<open>string | null\<close> argument is truthy when it is a non-empty string.\<close>

definition truthy_string :: "string option \<Rightarrow> bool" where
  "truthy_string s = (case s of None \<Rightarrow> False | Some cs \<Rightarrow> cs \<noteq> [])"

text \<open>\<open>String.prototype.includes\<close>: the argument occurs as a contiguous run.\<close>

fun js_includes :: "string \<Rightarrow> string \<Rightarrow> bool" where
  "js_includes [] sub = (sub = [])"
| "js_includes (c # cs) sub = (take (length sub) (c # cs) = sub \<or> js_includes cs sub)"

text \<open>
  \<open>parseInt(s)\<close> with no radix: leading white space is skipped, then an optional sign, then
  either \<open>0x\<close>/\<open>0X\<close> and hexadecimal digits or decimal digits, as many as there are; what
  follows is ignored. With no digit the result is \<open>NaN\<close>, here \<open>None\<close>. The value is exact
  here; JavaScript rounds beyond \<open>2^53\<close>, far above every id and every valid \<open>Date\<close>.
\<close>

definition is_ws :: "char \<Rightarrow> bool" where
  "is_ws c = (c \<in> set [CHR '' '', CHR 0x09, CHR 0x0A, CHR 0x0B, CHR 0x0C, CHR 0x0D, CHR 0xA0])"

definition digit_of :: "nat \<Rightarrow> char \<Rightarrow> nat option" where
  "digit_of radix c =
     (let n = (of_char c :: nat);
          v = (if 48 \<le> n \<and> n \<le> 57 then Some (n - 48)
               else if 97 \<le> n \<and> n \<le> 122 then Some (n - 87)
               else if 65 \<le> n \<and> n \<le> 90 then Some (n - 55)
               else None)
      in case v of None \<Rightarrow> None | Some d \<Rightarrow> if d < radix then Some d else None)"

fun digits_prefix :: "nat \<Rightarrow> string \<Rightarrow> nat list" where
  "digits_prefix radix [] = []"
| "digits_prefix radix (c # cs) =
     (case digit_of radix c of None \<Rightarrow> [] | Some d \<Rightarrow> d # digits_prefix radix cs)"

definition digits_value :: "nat \<Rightarrow> nat list \<Rightarrow> int" where
  "digits_value radix ds = foldl (\<lambda>a d. int radix * a + int d) 0 ds"

definition parse_magnitude :: "string \<Rightarrow> int option" where
  "parse_magnitude s =
     (let hex = (take 2 s = ''0x'' \<or> take 2 s = ''0X'');
          radix = (if hex then 16 else 10);
          ds = digits_prefix radix (if hex then drop 2 s else s)
      in if ds = [] then None else Some (digits_value radix ds))"

definition parseInt :: "string \<Rightarrow> int option" where
  "parseInt s =
     (case dropWhile is_ws s of
        [] \<Rightarrow> None
      | c # cs \<Rightarrow>
          if c = CHR ''-'' then map_option uminus (parse_magnitude cs)
          else if c = CHR ''+'' then parse_magnitude cs
          else parse_magnitude (c # cs))"

text \<open>
  \<open>new Date(n)\<close>: an invalid date for \<open>NaN\<close> and for an instant more than
  \<open>8.64e15\<close> ms from the epoch.
\<close>

datatype js_date = ValidDate timestamp | InvalidDate

definition new_Date :: "int option \<Rightarrow> js_date" where
  "new_Date n =
     (case n of
        None \<Rightarrow> InvalidDate
      | Some t \<Rightarrow> if \<bar>t\<bar> \<le> 8640000000000000 then ValidDate t else InvalidDate)"

text \<open>
  \<open>xs.slice(0, end)\<close>: a negative \<open>end\<close> counts from the end of the array, and the
  result never reaches beyond the array.
\<close>

definition slice0 :: "int \<Rightarrow> 'a list \<Rightarrow> 'a list" where
  "slice0 e xs =
     (let n = int (length xs);
          k = (if e < 0 then max 0 (n + e) else min e n)
      in take (nat k) xs)"

text \<open>\<open>String(n)\<close> of an integer, as the cache client writes a number.\<close>

fun show_nat :: "nat \<Rightarrow> string" where
  "show_nat n =
     (if n < 10 then [''0123456789'' ! n]
      else show_nat (n div 10) @ [''0123456789'' ! (n mod 10)])"

declare show_nat.simps [simp del]

definition show_int :: "int \<Rightarrow> string" where
  "show_int i = (if i < 0 then CHR ''-'' # show_nat (nat (- i)) else show_nat (nat i))"

section \<open>The tables\<close>

text \<open>
  The entity classes (\<open>entities/User\<close>, \<open>entities/Post\<close>, \<open>entities/Upvote\<close>) are not
  among the sources; the rows carry the columns the resolvers read and write.
\<close>

record user =
  user_id :: int
  username :: string
  user_email :: string
  password :: string
  user_createdAt :: timestamp
  user_updatedAt :: timestamp

record post =
  post_id :: int
  title :: string
  post_text :: string
  points :: int
  creatorId :: int
  createdAt :: timestamp
  updatedAt :: timestamp

record upvote =
  vote_value :: int
  upvote_userId :: int
  upvote_postId :: int

record db =
  user_table :: "user list"
  user_id_seq :: int
  post_table :: "post list"
  upvote_table :: "upvote list"

text \<open>What the database driver throws: the SQLSTATE code and the detail line.\<close>

record pg_error =
  pg_code :: string
  pg_detail :: string

datatype error = NotAuthenticated | QueryFailed pg_error | TypeError

section \<open>The vote ledger\<close>

text \<open>\<open>Upvote.findOne({ where: { userId, postId } })\<close>\<close>

definition Upvote_findOne :: "int \<Rightarrow> int \<Rightarrow> db \<Rightarrow> upvote option" where
  "Upvote_findOne userId postId d =
     find (\<lambda>r. upvote_userId r = userId \<and> upvote_postId r = postId) (upvote_table d)"

text \<open>\<open>Post.findOne(id)\<close>\<close>

definition Post_findOne :: "int \<Rightarrow> db \<Rightarrow> post option" where
  "Post_findOne i d = find (\<lambda>q. post_id q = i) (post_table d)"

text \<open>\<open>update upvote set value = $1 where "postId" = $2 and "userId" = $3\<close>\<close>

definition set_value :: "int \<Rightarrow> int \<Rightarrow> int \<Rightarrow> upvote \<Rightarrow> upvote" where
  "set_value v postId userId r =
     (if upvote_postId r = postId \<and> upvote_userId r = userId then r\<lparr>vote_value := v\<rparr> else r)"

definition update_upvote_value :: "int \<Rightarrow> int \<Rightarrow> int \<Rightarrow> db \<Rightarrow> pg_error + db" where
  "update_upvote_value v postId userId d =
     Inr (d\<lparr>upvote_table := map (set_value v postId userId) (upvote_table d)\<rparr>)"

text \<open>\<open>update post set points = points + $1 where id = $2\<close>\<close>

definition add_points :: "int \<Rightarrow> int \<Rightarrow> post \<Rightarrow> post" where
  "add_points delta postId q =
     (if post_id q = postId then q\<lparr>points := points q + delta\<rparr> else q)"

definition update_post_points :: "int \<Rightarrow> int \<Rightarrow> db \<Rightarrow> pg_error + db" where
  "update_post_points delta postId d =
     Inr (d\<lparr>post_table := map (add_points delta postId) (post_table d)\<rparr>)"

text \<open>
  Modelled from the spec: the constraints of the upvote table, whose entity is not among
  the sources. The spec gives the table the composite key (userId, postId), so a second row
  for the pair is a unique violation (23505), and it makes a vote on a post that does not
  exist fail, so the post reference is a foreign key (23503).

  \<open>insert into upvote ("userId", "postId", value) values($1, $2, $3)\<close>
\<close>

definition insert_upvote :: "int \<Rightarrow> int \<Rightarrow> int \<Rightarrow> db \<Rightarrow> pg_error + db" where
  "insert_upvote userId postId v d =
     (if Upvote_findOne userId postId d \<noteq> None
        then Inl \<lparr>pg_code = ''23505'', pg_detail = []\<rparr>
      else if Post_findOne postId d = None
        then Inl \<lparr>pg_code = ''23503'', pg_detail = []\<rparr>
      else Inr (d\<lparr>upvote_table := upvote_table d @
                  [\<lparr>vote_value = v, upvote_userId = userId, upvote_postId = postId\<rparr>]\<rparr>))"

text \<open>
  \<open>getConnection().transaction(async (tm) => { ... })\<close>: the statements run in order on
  the transaction's own view; when one throws, nothing of the transaction is kept and the
  error goes to the caller.
\<close>

fun run_statements :: "(db \<Rightarrow> pg_error + db) list \<Rightarrow> db \<Rightarrow> pg_error + db" where
  "run_statements [] d = Inr d"
| "run_statements (q # qs) d =
     (case q d of Inl e \<Rightarrow> Inl e | Inr d' \<Rightarrow> run_statements qs d')"

definition transaction :: "(db \<Rightarrow> pg_error + db) list \<Rightarrow> db \<Rightarrow> db \<times> (pg_error + unit)" where
  "transaction qs d =
     (case run_statements qs d of Inl e \<Rightarrow> (d, Inl e) | Inr d' \<Rightarrow> (d', Inr ()))"

text \<open>
  Modelled from the spec: the \<open>isAuth\<close> middleware (\<open>middleware/isAuth\<close> is not among the
  sources). The spec has it reject a call with no authenticated user id before any database
  access; it hands the resolver the session's user id otherwise.
\<close>

definition isAuth :: "int option \<Rightarrow> int option" where
  "isAuth sess = sess"

text \<open>
  \<open>const isUpvote = value !== -1; const realValue = isUpvote ? 1 : -1\<close>: every value but
  \<open>-1\<close> counts as an upvote.
\<close>

definition realValue :: "int \<Rightarrow> int" where
  "realValue val = (let isUpvote = (val \<noteq> - 1) in if isUpvote then 1 else - 1)"

text \<open>
  \<open>await\<close> of a transaction followed by \<open>return true\<close>: what the transaction throws
  goes to the caller of \<open>vote\<close>.
\<close>

definition committed :: "db \<times> (pg_error + unit) \<Rightarrow> db \<times> (error + bool)" where
  "committed r = (case r of (d, Inl e) \<Rightarrow> (d, Inl (QueryFailed e)) | (d, Inr _) \<Rightarrow> (d, Inr True))"

text \<open>\<open>PostResolver.vote\<close>: the new state of the database and what the call returns.\<close>

definition vote :: "int \<Rightarrow> int \<Rightarrow> int option \<Rightarrow> db \<Rightarrow> db \<times> (error + bool)" where
  "vote postId val sess d =
     (case isAuth sess of
        None \<Rightarrow> (d, Inl NotAuthenticated)
      | Some userId \<Rightarrow>
          (case Upvote_findOne userId postId d of
             Some upvote \<Rightarrow>
               if vote_value upvote \<noteq> realValue val
               then committed (transaction
                      [update_upvote_value (realValue val) postId userId,
                       update_post_points (2 * realValue val) postId] d)
               else (d, Inr True)
           | None \<Rightarrow>
               committed (transaction
                 [insert_upvote userId postId (realValue val),
                  update_post_points (realValue val) postId] d)))"

text \<open>
  The same call in the two steps the source takes: \<open>await Upvote.findOne(...)\<close> is
  answered first, outside any transaction, and fixes the branch; the transaction of that
  branch runs afterwards, on the database as it is by then. Other requests can run
  between the two steps.
\<close>

datatype vote_plan = Rejected | Nothing | Flip int int int | Insert int int int

definition vote_read :: "int \<Rightarrow> int \<Rightarrow> int option \<Rightarrow> db \<Rightarrow> vote_plan" where
  "vote_read postId val sess d =
     (case isAuth sess of
        None \<Rightarrow> Rejected
      | Some userId \<Rightarrow>
          (case Upvote_findOne userId postId d of
             Some upvote \<Rightarrow>
               if vote_value upvote \<noteq> realValue val then Flip (realValue val) postId userId
               else Nothing
           | None \<Rightarrow> Insert userId postId (realValue val)))"

definition vote_write :: "vote_plan \<Rightarrow> db \<Rightarrow> db \<times> (error + bool)" where
  "vote_write plan d =
     (case plan of
        Rejected \<Rightarrow> (d, Inl NotAuthenticated)
      | Nothing \<Rightarrow> (d, Inr True)
      | Flip v postId userId \<Rightarrow>
          committed (transaction
            [update_upvote_value v postId userId, update_post_points (2 * v) postId] d)
      | Insert userId postId v \<Rightarrow>
          committed (transaction
            [insert_upvote userId postId v, update_post_points v postId] d))"

text \<open>
  Two calls in flight together, each with its post, value and session: both reads are
  answered before either transaction runs, then the first call's transaction runs, then
  the second's. The result is the database and what the two calls return.
\<close>

definition vote_overlapping ::
  "int \<times> int \<times> int option \<Rightarrow> int \<times> int \<times> int option \<Rightarrow> db \<Rightarrow>
   db \<times> (error + bool) \<times> (error + bool)" where
  "vote_overlapping a b d =
     (case a of (postIdA, valA, sessA) \<Rightarrow>
      case b of (postIdB, valB, sessB) \<Rightarrow>
        (let planA = vote_read postIdA valA sessA d;
             planB = vote_read postIdB valB sessB d
         in case vote_write planA d of
              (d1, resA) \<Rightarrow>
                (case vote_write planB d1 of (d2, resB) \<Rightarrow> (d2, resA, resB))))"

section \<open>The points invariant\<close>

text \<open>The sum of \<open>value\<close> over the upvote rows that reference a post.\<close>

definition vote_sum :: "db \<Rightarrow> int \<Rightarrow> int" where
  "vote_sum d postId =
     sum_list (map vote_value (filter (\<lambda>r. upvote_postId r = postId) (upvote_table d)))"

definition upvote_key :: "upvote \<Rightarrow> int \<times> int" where
  "upvote_key r = (upvote_userId r, upvote_postId r)"

text \<open>At most one upvote row for a pair of user and post.\<close>

definition key_unique :: "db \<Rightarrow> bool" where
  "key_unique d = distinct (map upvote_key (upvote_table d))"

text \<open>Every stored vote is \<open>+1\<close> or \<open>-1\<close>.\<close>

definition values_ok :: "db \<Rightarrow> bool" where
  "values_ok d = list_all (\<lambda>r. vote_value r = 1 \<or> vote_value r = - 1) (upvote_table d)"

text \<open>Every post's \<open>points\<close> is the sum of the votes on it.\<close>

definition points_ok :: "db \<Rightarrow> bool" where
  "points_ok d = list_all (\<lambda>q. points q = vote_sum d (post_id q)) (post_table d)"

definition ledger_ok :: "db \<Rightarrow> bool" where
  "ledger_ok d = (key_unique d \<and> values_ok d \<and> points_ok d)"

text \<open>The points of a post, as \<open>Post.findOne\<close> reads them.\<close>

definition points_of :: "db \<Rightarrow> int \<Rightarrow> int option" where
  "points_of d postId = map_option points (Post_findOne postId d)"

text \<open>
  The change a call makes to the sum of the votes on its post: the inserted value, the
  change of the row's value, or nothing.
\<close>

definition vote_delta :: "int \<Rightarrow> int \<Rightarrow> int option \<Rightarrow> db \<Rightarrow> int" where
  "vote_delta postId val sess d =
     (case sess of
        None \<Rightarrow> 0
      | Some userId \<Rightarrow>
          (case Upvote_findOne userId postId d of
             Some r \<Rightarrow> realValue val - vote_value r
           | None \<Rightarrow> if Post_findOne postId d = None then 0 else realValue val))"

text \<open>The \<open>$1\<close> of the \<open>update post\<close> statement the call runs, 0 when it runs none.\<close>

definition points_adjust :: "int \<Rightarrow> int \<Rightarrow> int option \<Rightarrow> db \<Rightarrow> int" where
  "points_adjust postId val sess d =
     (case sess of
        None \<Rightarrow> 0
      | Some userId \<Rightarrow>
          (case Upvote_findOne userId postId d of
             Some r \<Rightarrow> if vote_value r \<noteq> realValue val then 2 * realValue val else 0
           | None \<Rightarrow> if Post_findOne postId d = None then 0 else realValue val))"

text \<open>A sequence of calls, each with its post, value and session.\<close>

fun run_votes :: "(int \<times> int \<times> int option) list \<Rightarrow> db \<Rightarrow> db" where
  "run_votes [] d = d"
| "run_votes ((postId, val, sess) # calls) d = run_votes calls (fst (vote postId val sess d))"

section \<open>The feed query\<close>

text \<open>The parameters handed to the driver beside the SQL text, \<open>$1\<close> first.\<close>

datatype sql_param = PInt int | PDate js_date

record creator_json =
  cj_id :: int
  cj_username :: string
  cj_email :: string
  cj_createdAt :: timestamp
  cj_updatedAt :: timestamp

text \<open>A row of the feed: \<open>p.*\<close>, \<open>"createdBy"\<close> and \<open>"voteStatus"\<close>.\<close>

record post_row = post +
  createdBy :: creator_json
  voteStatus :: "int option"

text \<open>
  The two places where the SQL text of \<open>posts\<close> varies: the vote status is either a
  subselect on \<open>$2\<close> or \<open>null\<close>, and the \<open>where\<close> clause on \<open>$cursorIndex\<close> is there or not.
  The limit is always \<open>$1\<close>.
\<close>

record posts_sql =
  vote_status_param :: "nat option"
  cursor_param :: "nat option"

definition nth_param :: "sql_param list \<Rightarrow> nat \<Rightarrow> sql_param option" where
  "nth_param replacements k =
     (if 1 \<le> k \<and> k \<le> length replacements then Some (replacements ! (k - 1)) else None)"

text \<open>The highest parameter the text refers to; the driver wants exactly that many.\<close>

definition params_required :: "posts_sql \<Rightarrow> nat" where
  "params_required q =
     max 1 (max (case vote_status_param q of None \<Rightarrow> 0 | Some k \<Rightarrow> k)
                (case cursor_param q of None \<Rightarrow> 0 | Some k \<Rightarrow> k))"

definition sql_error :: "string \<Rightarrow> pg_error" where
  "sql_error c = \<lparr>pg_code = c, pg_detail = []\<rparr>"

text \<open>
  \<open>from post p inner join public.user u on u.id = p."creatorId"\<close>, with the select list:
  the post's columns, the creator as JSON, and the vote of user \<open>$2\<close> on the post (the
  subselect yields the value of the one row the key allows, or \<open>null\<close>).
\<close>

definition feed_row :: "int option \<Rightarrow> db \<Rightarrow> post \<Rightarrow> user \<Rightarrow> post_row" where
  "feed_row viewer d p u =
     \<lparr>post_id = post_id p, title = title p, post_text = post_text p, points = points p,
      creatorId = creatorId p, createdAt = createdAt p, updatedAt = updatedAt p,
      createdBy = \<lparr>cj_id = user_id u, cj_username = username u, cj_email = user_email u,
                    cj_createdAt = user_createdAt u, cj_updatedAt = user_updatedAt u\<rparr>,
      voteStatus = (case viewer of
                      None \<Rightarrow> None
                    | Some userId \<Rightarrow> map_option vote_value (Upvote_findOne userId (post_id p) d))\<rparr>"

definition joined_rows :: "int option \<Rightarrow> db \<Rightarrow> post_row list" where
  "joined_rows viewer d =
     concat (map (\<lambda>p. map (feed_row viewer d p)
                         (filter (\<lambda>u. user_id u = creatorId p) (user_table d)))
                 (post_table d))"

text \<open>\<open>order by p."createdAt" DESC\<close>\<close>

definition order_by_createdAt_desc :: "post_row list \<Rightarrow> post_row list" where
  "order_by_createdAt_desc rows = rev (sort_key createdAt rows)"

text \<open>
  \<open>getConnection().query(sql, replacements)\<close> for the text of \<open>posts\<close>. The database
  rejects a parameter list of the wrong length (08P01), a parameter of the wrong type or
  an invalid date (22P02, 22007), and a negative \<open>limit\<close> (2201W).
\<close>

definition connection_query :: "posts_sql \<Rightarrow> sql_param list \<Rightarrow> db \<Rightarrow> pg_error + post_row list" where
  "connection_query q replacements d =
     (if length replacements \<noteq> params_required q then Inl (sql_error ''08P01'')
      else
        case nth_param replacements 1 of
          Some (PInt n) \<Rightarrow>
            (case (case vote_status_param q of
                     None \<Rightarrow> Inr None
                   | Some k \<Rightarrow> (case nth_param replacements k of
                                  Some (PInt u) \<Rightarrow> Inr (Some u)
                                | _ \<Rightarrow> Inl (sql_error ''22P02''))) of
               Inl e \<Rightarrow> Inl e
             | Inr viewer \<Rightarrow>
                 (case (case cursor_param q of
                          None \<Rightarrow> Inr None
                        | Some k \<Rightarrow> (case nth_param replacements k of
                                       Some (PDate (ValidDate t)) \<Rightarrow> Inr (Some t)
                                     | _ \<Rightarrow> Inl (sql_error ''22007''))) of
                    Inl e \<Rightarrow> Inl e
                  | Inr bound \<Rightarrow>
                      if n < 0 then Inl (sql_error ''2201W'')
                      else Inr (take (nat n)
                             (order_by_createdAt_desc
                               (filter (\<lambda>row. case bound of None \<Rightarrow> True
                                                | Some t \<Rightarrow> createdAt row < t)
                                       (joined_rows viewer d))))))
        | _ \<Rightarrow> Inl (sql_error ''22P02''))"

record PaginatedPosts =
  pp_posts :: "post_row list"
  hasMore :: bool

text \<open>
  The head of \<open>PostResolver.posts\<close>: the parameter list and the index of the cursor in it.
\<close>

definition posts_replacements :: "int \<Rightarrow> string option \<Rightarrow> int option \<Rightarrow> sql_param list \<times> nat" where
  "posts_replacements limit cursor sess =
     (let realLimit = min 50 limit;
          realLimitPlusOne = realLimit + 1;
          replacements = [PInt realLimitPlusOne];
          replacements = (case sess of
                            None \<Rightarrow> replacements
                          | Some userId \<Rightarrow> if userId \<noteq> 0 then replacements @ [PInt userId]
                                           else replacements);
          cursorIndex = 3
      in case cursor of
           None \<Rightarrow> (replacements, cursorIndex)
         | Some c \<Rightarrow>
             if c \<noteq> []
             then (let replacements = replacements @ [PDate (new_Date (parseInt c))];
                       cursorIndex = length replacements
                   in (replacements, cursorIndex))
             else (replacements, cursorIndex))"

text \<open>The rows the query of \<open>posts\<close> returns.\<close>

definition posts_rows :: "int \<Rightarrow> string option \<Rightarrow> int option \<Rightarrow> db \<Rightarrow> pg_error + post_row list" where
  "posts_rows limit cursor sess d =
     (case posts_replacements limit cursor sess of
        (replacements, cursorIndex) \<Rightarrow>
          connection_query
            \<lparr>vote_status_param = (if truthy_id sess then Some 2 else None),
             cursor_param = (if truthy_string cursor then Some cursorIndex else None)\<rparr>
            replacements d)"

text \<open>\<open>PostResolver.posts\<close>\<close>

definition posts :: "int \<Rightarrow> string option \<Rightarrow> int option \<Rightarrow> db \<Rightarrow> error + PaginatedPosts" where
  "posts limit cursor sess d =
     (let realLimit = min 50 limit;
          realLimitPlusOne = realLimit + 1
      in case posts_rows limit cursor sess d of
           Inl e \<Rightarrow> Inl (QueryFailed e)
         | Inr rows \<Rightarrow>
             Inr \<lparr>pp_posts = slice0 realLimit rows,
                  hasMore = (int (length rows) = realLimitPlusOne)\<rparr>)"

text \<open>
  The user whose votes the query reads: the session's user when \<open>req.session.userId\<close> is
  truthy, nobody otherwise.
\<close>

definition viewer_of :: "int option \<Rightarrow> int option" where
  "viewer_of sess = (if truthy_id sess then sess else None)"

text \<open>
  The joined rows older than a bound (all of them when there is none), newest first: what
  the query cuts its page from.
\<close>

definition feed_candidates :: "timestamp option \<Rightarrow> int option \<Rightarrow> db \<Rightarrow> post_row list" where
  "feed_candidates bound sess d =
     order_by_createdAt_desc
       (filter (\<lambda>row. case bound of None \<Rightarrow> True | Some t \<Rightarrow> createdAt row < t)
               (joined_rows (viewer_of sess) d))"

section \<open>Updating a post\<close>






section \<open>The user resolvers\<close>

record FieldError =
  field :: string
  message :: string

record UserResponse =
  resp_errors :: "FieldError list option"
  resp_user :: "user option"

record UsernamePasswordInput =
  in_username :: string
  in_email :: string
  in_password :: string

definition field_error :: "string \<Rightarrow> string \<Rightarrow> UserResponse" where
  "field_error f m = \<lparr>resp_errors = Some [\<lparr>field = f, message = m\<rparr>], resp_user = None\<rparr>"

text \<open>
  The cache: a key holds a value until its expiry instant. \<open>redis.set(k, v, 'ex', n)\<close> lets
  the key expire \<open>n\<close> seconds later and writes a number as its decimal string.
\<close>

type_synonym redis_store = "string \<rightharpoonup> (string \<times> timestamp)"

definition redis_get :: "redis_store \<Rightarrow> timestamp \<Rightarrow> string \<Rightarrow> string option" where
  "redis_get r now k =
     (case r k of None \<Rightarrow> None | Some (v, expiry) \<Rightarrow> if now < expiry then Some v else None)"

definition redis_set_ex :: "redis_store \<Rightarrow> timestamp \<Rightarrow> string \<Rightarrow> string \<Rightarrow> int \<Rightarrow> redis_store" where
  "redis_set_ex r now k v seconds = r(k \<mapsto> (v, now + seconds * 1000))"

definition redis_del :: "redis_store \<Rightarrow> string \<Rightarrow> redis_store" where
  "redis_del r k = r(k := None)"

text \<open>
  The request's context: the session's user id, the database, the cache, and the mail
  sent so far (recipient and body).
\<close>

record ctx =
  session_userId :: "int option"
  database :: db
  redis :: redis_store
  outbox :: "(string \<times> string) list"

text \<open>\<open>User.findOne(id)\<close>, \<open>em.findOne(User, { id })\<close>\<close>

definition User_findOne_id :: "int \<Rightarrow> db \<Rightarrow> user option" where
  "User_findOne_id i d = find (\<lambda>u. user_id u = i) (user_table d)"

text \<open>\<open>User.findOne({ where: { email } })\<close>, \<open>em.findOne(User, { email })\<close>\<close>

definition User_findOne_email :: "string \<Rightarrow> db \<Rightarrow> user option" where
  "User_findOne_email e d = find (\<lambda>u. user_email u = e) (user_table d)"

text \<open>\<open>User.update({ id }, { password })\<close> and the flush of a user whose password changed.\<close>

definition User_update_password :: "int \<Rightarrow> string \<Rightarrow> timestamp \<Rightarrow> db \<Rightarrow> db" where
  "User_update_password i pw now d =
     d\<lparr>user_table := map (\<lambda>u. if user_id u = i then u\<lparr>password := pw, user_updatedAt := now\<rparr>
                                else u)
                          (user_table d)\<rparr>"

text \<open>
  What PostgreSQL reports for a duplicate key: code 23505 and a detail line that names the
  column and quotes the value.
\<close>

definition unique_violation :: "string \<Rightarrow> string \<Rightarrow> pg_error" where
  "unique_violation column v =
     \<lparr>pg_code = ''23505'', pg_detail = ''Key ('' @ column @ '')=('' @ v @ '') already exists.''\<rparr>"

text \<open>
  Modelled from the spec: the user table, whose entity is not among the sources. The spec
  gives it a surrogate key and makes username and email unique. The insert takes the next
  value of the key's sequence (also when it fails), checks the username, then the email,
  and returns the new row.
\<close>

definition insert_user :: "string \<Rightarrow> string \<Rightarrow> string \<Rightarrow> timestamp \<Rightarrow> db \<Rightarrow> db \<times> (pg_error + user)" where
  "insert_user uname pw mail now d =
     (let new_id = user_id_seq d + 1;
          d1 = d\<lparr>user_id_seq := new_id\<rparr>
      in if list_ex (\<lambda>u. username u = uname) (user_table d)
           then (d1, Inl (unique_violation ''username'' uname))
         else if list_ex (\<lambda>u. user_email u = mail) (user_table d)
           then (d1, Inl (unique_violation ''email'' mail))
         else (let usr = \<lparr>user_id = new_id, username = uname, user_email = mail, password = pw,
                           user_createdAt = now, user_updatedAt = now\<rparr>
               in (d1\<lparr>user_table := user_table d @ [usr]\<rparr>, Inr usr)))"

text \<open>
  \<open>UserResolver.register\<close>, the version on the query builder of the first mapper. The
  validator and the password hash are collaborators, taken as parameters. When the insert
  throws anything but 23505 the \<open>catch\<close> block ends, \<open>user\<close> is still \<open>undefined\<close> and
  \<open>user.id\<close> throws.
\<close>

definition mikro_register ::
  "(UsernamePasswordInput \<Rightarrow> FieldError list option) \<Rightarrow> (string \<Rightarrow> string) \<Rightarrow> timestamp \<Rightarrow>
   UsernamePasswordInput \<Rightarrow> ctx \<Rightarrow> ctx \<times> (error + UserResponse)" where
  "mikro_register validateRegister argon2_hash now options c =
     (case validateRegister options of
        Some errors \<Rightarrow> (c, Inr \<lparr>resp_errors = Some errors, resp_user = None\<rparr>)
      | None \<Rightarrow>
          (let hashedPassword = argon2_hash (in_password options)
           in case insert_user (in_username options) hashedPassword (in_email options) now
                     (database c) of
                (d', Inl err) \<Rightarrow>
                  if pg_code err = ''23505''
                  then (c\<lparr>database := d'\<rparr>, Inr (field_error ''username'' ''username already taken''))
                  else (c\<lparr>database := d'\<rparr>, Inl TypeError)
              | (d', Inr usr) \<Rightarrow>
                  (c\<lparr>database := d', session_userId := Some (user_id usr)\<rparr>,
                   Inr \<lparr>resp_errors = None, resp_user = Some usr\<rparr>)))"

text \<open>\<open>UserResolver.register\<close>, the version on the second mapper.\<close>

definition typeorm_register ::
  "(UsernamePasswordInput \<Rightarrow> FieldError list option) \<Rightarrow> (string \<Rightarrow> string) \<Rightarrow> timestamp \<Rightarrow>
   UsernamePasswordInput \<Rightarrow> ctx \<Rightarrow> ctx \<times> (error + UserResponse)" where
  "typeorm_register validateRegister argon2_hash now options c =
     (case validateRegister options of
        Some errors \<Rightarrow> (c, Inr \<lparr>resp_errors = Some errors, resp_user = None\<rparr>)
      | None \<Rightarrow>
          (let hashedPassword = argon2_hash (in_password options)
           in case insert_user (in_username options) hashedPassword (in_email options) now
                     (database c) of
                (d', Inl err) \<Rightarrow>
                  if pg_code err = ''23505''
                  then if js_includes (pg_detail err) ''email''
                       then (c\<lparr>database := d'\<rparr>, Inr (field_error ''email'' ''email already exists''))
                       else (c\<lparr>database := d'\<rparr>,
                             Inr (field_error ''username'' ''username already taken''))
                  else (c\<lparr>database := d'\<rparr>, Inl TypeError)
              | (d', Inr usr) \<Rightarrow>
                  (c\<lparr>database := d', session_userId := Some (user_id usr)\<rparr>,
                   Inr \<lparr>resp_errors = None, resp_user = Some usr\<rparr>)))"

text \<open>The body of the mail: the link with the token.\<close>

definition reset_link :: "string \<Rightarrow> string" where
  "reset_link token =
     ''<a href='' @ [CHR 0x22] @ ''http://localhost:3000/change-password/'' @ token @ [CHR 0x22]
       @ ''>reset password</a>''"

text \<open>
  \<open>UserResolver.forgotPassword\<close>. The prefix of the cache keys is a constant of the
  repository that is not among the sources, and \<open>v4()\<close> draws a random token: both are
  parameters. The two versions differ only in the mapper call that finds the user.
\<close>

definition mikro_forgotPassword :: "string \<Rightarrow> string \<Rightarrow> timestamp \<Rightarrow> string \<Rightarrow> ctx \<Rightarrow> ctx \<times> bool" where
  "mikro_forgotPassword FORGET_PASSWORD_PREFIX v4 now email_arg c =
     (case User_findOne_email email_arg (database c) of
        None \<Rightarrow> (c, True)
      | Some usr \<Rightarrow>
          (let token = v4;
               c1 = c\<lparr>redis := redis_set_ex (redis c) now (FORGET_PASSWORD_PREFIX @ token)
                                  (show_int (user_id usr)) (1000 * 60 * 60 * 24)\<rparr>;
               c2 = c1\<lparr>outbox := outbox c1 @ [(email_arg, reset_link token)]\<rparr>
           in (c2, True)))"

definition typeorm_forgotPassword :: "string \<Rightarrow> string \<Rightarrow> timestamp \<Rightarrow> string \<Rightarrow> ctx \<Rightarrow> ctx \<times> bool" where
  "typeorm_forgotPassword FORGOT_PASSWORD_PREFIX v4 now email_arg c =
     (case User_findOne_email email_arg (database c) of
        None \<Rightarrow> (c, True)
      | Some usr \<Rightarrow>
          (let token = v4;
               c1 = c\<lparr>redis := redis_set_ex (redis c) now (FORGOT_PASSWORD_PREFIX @ token)
                                  (show_int (user_id usr)) (1000 * 60 * 60 * 24)\<rparr>;
               c2 = c1\<lparr>outbox := outbox c1 @ [(email_arg, reset_link token)]\<rparr>
           in (c2, True)))"

text \<open>
  \<open>UserResolver.changePassword\<close>, first version. \<open>if (!userId)\<close> is true for a missing
  key and for an empty string. A stored value that is no number makes the lookup of the
  user fail in the database. The user object is changed and flushed, the session is set,
  and the changed object is returned; the cache is not written.
\<close>

definition mikro_changePassword ::
  "string \<Rightarrow> (string \<Rightarrow> string) \<Rightarrow> timestamp \<Rightarrow> string \<Rightarrow> string \<Rightarrow> ctx \<Rightarrow>
   ctx \<times> (error + UserResponse)" where
  "mikro_changePassword FORGET_PASSWORD_PREFIX argon2_hash now token newPassword c =
     (if length newPassword \<le> 5
        then (c, Inr (field_error ''newPassword'' ''length must be greater than 5''))
      else
        case redis_get (redis c) now (FORGET_PASSWORD_PREFIX @ token) of
          None \<Rightarrow> (c, Inr (field_error ''token'' ''token expired''))
        | Some userId \<Rightarrow>
            if userId = [] then (c, Inr (field_error ''token'' ''token expired''))
            else
              (case parseInt userId of
                 None \<Rightarrow> (c, Inl (QueryFailed (sql_error ''22P02'')))
               | Some n \<Rightarrow>
                   (case User_findOne_id n (database c) of
                      None \<Rightarrow> (c, Inr (field_error ''token'' ''user no longer exists''))
                    | Some usr \<Rightarrow>
                        (let pw = argon2_hash newPassword;
                             c1 = c\<lparr>database :=
                                      User_update_password (user_id usr) pw now (database c)\<rparr>;
                             c2 = c1\<lparr>session_userId := Some (user_id usr)\<rparr>
                         in (c2, Inr \<lparr>resp_errors = None,
                                      resp_user = Some (usr\<lparr>password := pw,
                                                             user_updatedAt := now\<rparr>)\<rparr>)))))"

text \<open>
  \<open>UserResolver.changePassword\<close>, second version: the update of the row is started (the
  code does not wait for it; it is taken to run), the key is deleted from the cache, the
  session is set, and the object read before the update is returned.
\<close>

definition typeorm_changePassword ::
  "string \<Rightarrow> (string \<Rightarrow> string) \<Rightarrow> timestamp \<Rightarrow> string \<Rightarrow> string \<Rightarrow> ctx \<Rightarrow>
   ctx \<times> (error + UserResponse)" where
  "typeorm_changePassword FORGOT_PASSWORD_PREFIX argon2_hash now token newPassword c =
     (if length newPassword \<le> 5
        then (c, Inr (field_error ''newPassword'' ''length must be greater than 5''))
      else
        (let key = FORGOT_PASSWORD_PREFIX @ token
         in case redis_get (redis c) now key of
              None \<Rightarrow> (c, Inr (field_error ''token'' ''token expired''))
            | Some userId \<Rightarrow>
                if userId = [] then (c, Inr (field_error ''token'' ''token expired''))
                else
                  (case parseInt userId of
                     None \<Rightarrow> (c, Inl (QueryFailed (sql_error ''22P02'')))
                   | Some userIdNum \<Rightarrow>
                       (case User_findOne_id userIdNum (database c) of
                          None \<Rightarrow> (c, Inr (field_error ''token'' ''user no longer exists''))
                        | Some usr \<Rightarrow>
                            (let c1 = c\<lparr>database :=
                                          User_update_password userIdNum
                                            (argon2_hash newPassword) now (database c)\<rparr>;
                                 c2 = c1\<lparr>redis := redis_del (redis c1) key\<rparr>;
                                 c3 = c2\<lparr>session_userId := Some (user_id usr)\<rparr>
                             in (c3, Inr \<lparr>resp_errors = None, resp_user = Some usr\<rparr>))))))"

text \<open>
  The field resolver \<open>UserResolver.email\<close>: \<open>req.session.userId === user.id\<close> holds only
  for a session that carries this user's id.
\<close>

definition email :: "user \<Rightarrow> int option \<Rightarrow> string" where
  "email usr sess = (if sess = Some (user_id usr) then user_email usr else [])"

text \<open>
  A response that carries the user and no errors, and a response that carries field
  errors.
\<close>

definition succeeded :: "ctx \<times> (error + UserResponse) \<Rightarrow> bool" where
  "succeeded r =
     (case snd r of
        Inl e \<Rightarrow> False
      | Inr resp \<Rightarrow> resp_errors resp = None \<and> resp_user resp \<noteq> None)"

definition is_field_error :: "ctx \<times> (error + UserResponse) \<Rightarrow> bool" where
  "is_field_error r =
     (case snd r of
        Inl e \<Rightarrow> False
      | Inr resp \<Rightarrow> resp_errors resp \<noteq> None \<and> resp_errors resp \<noteq> Some [] \<and>
                    resp_user resp = None)"

section \<open>Example data\<close>

definition alice :: user where
  "alice = \<lparr>user_id = 1, username = ''alice'', user_email = ''alice@example.com'',
            password = ''hash-a'', user_createdAt = 1000, user_updatedAt = 1000\<rparr>"

definition bob :: user where
  "bob = \<lparr>user_id = 2, username = ''bob'', user_email = ''bob@example.com'',
          password = ''hash-b'', user_createdAt = 1500, user_updatedAt = 1500\<rparr>"

definition post1 :: post where
  "post1 = \<lparr>post_id = 1, title = ''Rank'', post_text = ''Curabitur at ipsum'', points = 0,
            creatorId = 1, createdAt = 2000, updatedAt = 2000\<rparr>"

definition post2 :: post where
  "post2 = \<lparr>post_id = 2, title = ''Holdlamis'', post_text = ''Cras non velit'', points = 0,
            creatorId = 2, createdAt = 3000, updatedAt = 3000\<rparr>"

definition fresh_db :: db where
  "fresh_db = \<lparr>user_table = [alice, bob], user_id_seq = 2, post_table = [post1, post2],
               upvote_table = []\<rparr>"

definition upvoted_db :: db where
  "upvoted_db = \<lparr>user_table = [alice, bob], user_id_seq = 2,
                 post_table = [post1\<lparr>points := 1\<rparr>, post2],
                 upvote_table = [\<lparr>vote_value = 1, upvote_userId = 1, upvote_postId = 1\<rparr>]\<rparr>"

definition downvoted_db :: db where
  "downvoted_db = \<lparr>user_table = [alice, bob], user_id_seq = 2,
                   post_table = [post1\<lparr>points := - 1\<rparr>, post2],
                   upvote_table = [\<lparr>vote_value = - 1, upvote_userId = 1, upvote_postId = 1\<rparr>]\<rparr>"

text \<open>
  The database after two overlapping votes for -1 by alice, who held +1 on the first post.
\<close>

definition twice_flipped_db :: db where
  "twice_flipped_db = \<lparr>user_table = [alice, bob], user_id_seq = 2,
                       post_table = [post1\<lparr>points := - 3\<rparr>, post2],
                       upvote_table = [\<lparr>vote_value = - 1, upvote_userId = 1, upvote_postId = 1\<rparr>]\<rparr>"

definition row1 :: post_row where
  "row1 = feed_row None fresh_db post1 alice"

definition row2 :: post_row where
  "row2 = feed_row None fresh_db post2 bob"

definition emil :: user where
  "emil = \<lparr>user_id = 3, username = ''email'', user_email = ''emil@example.com'',
           password = ''hash-e'', user_createdAt = 1700, user_updatedAt = 1700\<rparr>"

definition three_users_db :: db where
  "three_users_db = \<lparr>user_table = [alice, bob, emil], user_id_seq = 3,
                     post_table = [post1, post2], upvote_table = []\<rparr>"

definition example_hash :: "string \<Rightarrow> string" where
  "example_hash pw = ''argon2:'' @ pw"

definition no_errors :: "UsernamePasswordInput \<Rightarrow> FieldError list option" where
  "no_errors options = None"

definition ctx0 :: ctx where
  "ctx0 = \<lparr>session_userId = None, database = fresh_db, redis = Map.empty, outbox = []\<rparr>"

definition ctx3 :: ctx where
  "ctx3 = \<lparr>session_userId = None, database = three_users_db, redis = Map.empty, outbox = []\<rparr>"

text \<open>The context after \<open>forgotPassword\<close> for alice at instant 0 drew the token \<open>tok\<close>.\<close>

definition reset_ctx :: ctx where
  "reset_ctx =
     \<lparr>session_userId = None, database = fresh_db,
      redis = [''forget-password:tok'' \<mapsto> (''1'', 86400000000)],
      outbox = [(''alice@example.com'', reset_link ''tok'')]\<rparr>"

text \<open>The context after alice changed her password at instant 5000.\<close>

definition changed_ctx :: ctx where
  "changed_ctx = reset_ctx\<lparr>database := User_update_password 1 (example_hash ''secret1'') 5000 fresh_db,
                           session_userId := Some 1\<rparr>"

definition carol_with_alices_email :: UsernamePasswordInput where
  "carol_with_alices_email =
     \<lparr>in_username = ''carol'', in_email = ''alice@example.com'', in_password = ''secret1''\<rparr>"

definition second_email_user :: UsernamePasswordInput where
  "second_email_user =
     \<lparr>in_username = ''email'', in_email = ''new@example.com'', in_password = ''secret1''\<rparr>"

section \<open>Properties of the vote ledger\<close>

lemma realValue_cases: "realValue v = 1 \<or> realValue v = - 1"
  by (simp add: realValue_def)

lemma vote_unauthenticated: "vote postId val None d = (d, Inl NotAuthenticated)"
  by (simp add: vote_def isAuth_def)

lemma vote_noop:
  "Upvote_findOne userId postId d = Some r \<Longrightarrow> vote_value r = realValue val \<Longrightarrow>
   vote postId val (Some userId) d = (d, Inr True)"
  by (simp add: vote_def isAuth_def)

lemma vote_flip:
  "Upvote_findOne userId postId d = Some r \<Longrightarrow> vote_value r \<noteq> realValue val \<Longrightarrow>
   vote postId val (Some userId) d =
     (d\<lparr>upvote_table := map (set_value (realValue val) postId userId) (upvote_table d),
        post_table := map (add_points (2 * realValue val) postId) (post_table d)\<rparr>, Inr True)"
  by (simp add: vote_def isAuth_def transaction_def committed_def
      update_upvote_value_def update_post_points_def)

lemma vote_insert:
  "Upvote_findOne userId postId d = None \<Longrightarrow> Post_findOne postId d = Some q \<Longrightarrow>
   vote postId val (Some userId) d =
     (d\<lparr>upvote_table := upvote_table d @
          [\<lparr>vote_value = realValue val, upvote_userId = userId, upvote_postId = postId\<rparr>],
        post_table := map (add_points (realValue val) postId) (post_table d)\<rparr>, Inr True)"
  by (simp add: vote_def isAuth_def transaction_def committed_def
      insert_upvote_def update_post_points_def)

lemma vote_missing_post:
  "Upvote_findOne userId postId d = None \<Longrightarrow> Post_findOne postId d = None \<Longrightarrow>
   vote postId val (Some userId) d =
     (d, Inl (QueryFailed \<lparr>pg_code = ''23503'', pg_detail = []\<rparr>))"
  by (simp add: vote_def isAuth_def transaction_def committed_def
      insert_upvote_def update_post_points_def)

lemma vote_sum_post_table [simp]:
  "vote_sum (d\<lparr>post_table := ps\<rparr>) p = vote_sum d p"
  by (simp add: vote_sum_def)

lemma set_value_absent:
  "(userId, postId) \<notin> set (map upvote_key rs) \<Longrightarrow> map (set_value v postId userId) rs = rs"
  by (induction rs) (auto simp: set_value_def upvote_key_def)

lemma upvote_key_set_value [simp]: "upvote_key (set_value v postId userId r) = upvote_key r"
  by (simp add: set_value_def upvote_key_def)

lemma upvote_postId_set_value [simp]: "upvote_postId (set_value v postId userId r) = upvote_postId r"
  by (simp add: set_value_def)

lemma sum_flip:
  "distinct (map upvote_key rs) \<Longrightarrow>
   find (\<lambda>r. upvote_userId r = userId \<and> upvote_postId r = postId) rs = Some r0 \<Longrightarrow>
   sum_list (map vote_value (filter (\<lambda>r. upvote_postId r = p) (map (set_value v postId userId) rs)))
   = sum_list (map vote_value (filter (\<lambda>r. upvote_postId r = p) rs))
     + (if postId = p then v - vote_value r0 else 0)"
proof (induction rs)
  case Nil
  then show ?case by simp
next
  case (Cons x xs)
  show ?case
  proof (cases "upvote_userId x = userId \<and> upvote_postId x = postId")
    case True
    with Cons.prems have r0: "r0 = x" by simp
    from True Cons.prems have "(userId, postId) \<notin> set (map upvote_key xs)"
      by (auto simp: upvote_key_def)
    then have "map (set_value v postId userId) xs = xs" by (rule set_value_absent)
    moreover from True have "set_value v postId userId x = x\<lparr>vote_value := v\<rparr>"
      by (simp add: set_value_def)
    ultimately show ?thesis using True r0 by simp
  next
    case False
    with Cons.prems have "find (\<lambda>r. upvote_userId r = userId \<and> upvote_postId r = postId) xs = Some r0"
      by auto
    with Cons have IH: "sum_list (map vote_value (filter (\<lambda>r. upvote_postId r = p) (map (set_value v postId userId) xs)))
   = sum_list (map vote_value (filter (\<lambda>r. upvote_postId r = p) xs))
     + (if postId = p then v - vote_value r0 else 0)" by simp
    from False have "set_value v postId userId x = x" by (auto simp: set_value_def)
    with IH show ?thesis by (cases "postId = p") simp_all
  qed
qed

lemma vote_sum_flip:
  "key_unique d \<Longrightarrow> Upvote_findOne userId postId d = Some r0 \<Longrightarrow>
   vote_sum (d\<lparr>upvote_table := map (set_value v postId userId) (upvote_table d)\<rparr>) p =
     vote_sum d p + (if postId = p then v - vote_value r0 else 0)"
  unfolding vote_sum_def key_unique_def Upvote_findOne_def
  using sum_flip [of "upvote_table d" userId postId r0 p v] by simp

lemma findOne_None_key:
  "Upvote_findOne userId postId d = None \<Longrightarrow> (userId, postId) \<notin> set (map upvote_key (upvote_table d))"
  by (auto simp: Upvote_findOne_def find_None_iff upvote_key_def)

lemma findOne_Some_mem:
  "Upvote_findOne userId postId d = Some r \<Longrightarrow>
   r \<in> set (upvote_table d) \<and> upvote_userId r = userId \<and> upvote_postId r = postId"
  by (auto simp: Upvote_findOne_def find_Some_iff)

lemma vote_sum_after:
  assumes "key_unique d"
  shows "vote_sum (fst (vote postId val sess d)) p =
         vote_sum d p + (if p = postId then vote_delta postId val sess d else 0)"
proof (cases sess)
  case None
  then show ?thesis by (simp add: vote_unauthenticated vote_delta_def)
next
  case (Some userId)
  show ?thesis
  proof (cases "Upvote_findOne userId postId d")
    case None
    show ?thesis
    proof (cases "Post_findOne postId d")
      case None
      with \<open>Upvote_findOne userId postId d = None\<close> Some show ?thesis
        by (simp add: vote_missing_post vote_delta_def)
    next
      case (Some q)
      with \<open>Upvote_findOne userId postId d = None\<close> \<open>sess = Some userId\<close> show ?thesis
        by (auto simp add: vote_insert vote_delta_def vote_sum_def)
    qed
  next
    case (Some r)
    show ?thesis
    proof (cases "vote_value r = realValue val")
      case True
      with Some \<open>sess = Some userId\<close> show ?thesis
        by (simp add: vote_noop vote_delta_def)
    next
      case False
      with Some \<open>sess = Some userId\<close> assms show ?thesis
        by (auto simp add: vote_flip vote_delta_def vote_sum_flip)
    qed
  qed
qed

lemma post_id_add_points [simp]: "post_id (add_points delta postId q) = post_id q"
  by (simp add: add_points_def)

lemma find_add_points:
  "find (\<lambda>q. post_id q = i) (map (add_points delta postId) ps) =
   map_option (add_points delta postId) (find (\<lambda>q. post_id q = i) ps)"
  by (induction ps) simp_all

lemma find_holds: "find P xs = Some x \<Longrightarrow> P x"
  by (induction xs) (auto split: if_splits)

lemma find_app:
  "find P (xs @ ys) = (case find P xs of None \<Rightarrow> find P ys | Some x \<Rightarrow> Some x)"
  by (induction xs) simp_all

lemma points_of_add_points:
  assumes "post_table d' = map (add_points delta postId) (post_table d)"
  shows "points_of d' i = map_option (\<lambda>x. if i = postId then x + delta else x) (points_of d i)"
proof (cases "find (\<lambda>q. post_id q = i) (post_table d)")
  case None
  then show ?thesis by (simp add: points_of_def Post_findOne_def find_add_points assms)
next
  case (Some q)
  then have "post_id q = i" by (rule find_holds)
  with Some show ?thesis
    by (simp add: points_of_def Post_findOne_def find_add_points add_points_def assms)
qed

lemma points_of_upvote_table [simp]: "points_of (d\<lparr>upvote_table := us\<rparr>) i = points_of d i"
  by (simp add: points_of_def Post_findOne_def)

lemma Post_findOne_upvote_table [simp]: "Post_findOne i (d\<lparr>upvote_table := us\<rparr>) = Post_findOne i d"
  by (simp add: Post_findOne_def)

lemma upvote_userId_set_value [simp]: "upvote_userId (set_value v postId userId r) = upvote_userId r"
  by (simp add: set_value_def)

lemma find_set_value:
  "find (\<lambda>r. upvote_userId r = u \<and> upvote_postId r = p) (map (set_value v postId userId) rs) =
   map_option (set_value v postId userId) (find (\<lambda>r. upvote_userId r = u \<and> upvote_postId r = p) rs)"
  by (induction rs) simp_all

lemma findOne_after_flip:
  "Upvote_findOne u p (d\<lparr>upvote_table := map (set_value v postId userId) (upvote_table d),
                        post_table := ps\<rparr>) =
   map_option (set_value v postId userId) (Upvote_findOne u p d)"
  by (simp add: Upvote_findOne_def find_set_value)

lemma findOne_after_insert:
  "Upvote_findOne userId postId d = None \<Longrightarrow>
   Upvote_findOne userId postId
     (d\<lparr>upvote_table := upvote_table d @ [\<lparr>vote_value = v, upvote_userId = userId, upvote_postId = postId\<rparr>],
        post_table := ps\<rparr>) =
   Some \<lparr>vote_value = v, upvote_userId = userId, upvote_postId = postId\<rparr>"
  by (simp add: Upvote_findOne_def find_app)

lemma add_points_zero [simp]: "add_points 0 postId = (\<lambda>q. q)"
  by (rule ext) (simp add: add_points_def)

lemma post_table_after:
  "post_table (fst (vote postId val sess d)) =
     map (add_points (points_adjust postId val sess d) postId) (post_table d)"
proof (cases sess)
  case None
  then show ?thesis by (simp add: vote_unauthenticated points_adjust_def)
next
  case (Some userId)
  show ?thesis
  proof (cases "Upvote_findOne userId postId d")
    case None
    show ?thesis
    proof (cases "Post_findOne postId d")
      case None
      with \<open>Upvote_findOne userId postId d = None\<close> Some show ?thesis
        by (simp add: vote_missing_post points_adjust_def)
    next
      case (Some q)
      with \<open>Upvote_findOne userId postId d = None\<close> \<open>sess = Some userId\<close> show ?thesis
        by (simp add: vote_insert points_adjust_def)
    qed
  next
    case (Some r)
    show ?thesis
    proof (cases "vote_value r = realValue val")
      case True
      with Some \<open>sess = Some userId\<close> show ?thesis
        by (simp add: vote_noop points_adjust_def)
    next
      case False
      with Some \<open>sess = Some userId\<close> show ?thesis
        by (simp add: vote_flip points_adjust_def)
    qed
  qed
qed

lemma values_ok_mem:
  "values_ok d \<Longrightarrow> r \<in> set (upvote_table d) \<Longrightarrow> vote_value r = 1 \<or> vote_value r = - 1"
  by (simp add: values_ok_def list_all_iff)

lemma adjust_is_delta:
  assumes "values_ok d"
  shows "points_adjust postId val sess d = vote_delta postId val sess d"
proof (cases sess)
  case None
  then show ?thesis by (simp add: points_adjust_def vote_delta_def)
next
  case (Some userId)
  show ?thesis
  proof (cases "Upvote_findOne userId postId d")
    case None
    with Some show ?thesis by (simp add: points_adjust_def vote_delta_def)
  next
    case (Some r)
    then have "r \<in> set (upvote_table d)" by (simp add: findOne_Some_mem)
    with assms have "vote_value r = 1 \<or> vote_value r = - 1" by (rule values_ok_mem)
    with Some \<open>sess = Some userId\<close> realValue_cases [of val] show ?thesis
      by (auto simp add: points_adjust_def vote_delta_def)
  qed
qed

lemma key_unique_after: "key_unique d \<Longrightarrow> key_unique (fst (vote postId val sess d))"
proof (cases sess)
  case None
  assume "key_unique d"
  with None show ?thesis by (simp add: vote_unauthenticated)
next
  case (Some userId)
  assume ku: "key_unique d"
  show ?thesis
  proof (cases "Upvote_findOne userId postId d")
    case None
    show ?thesis
    proof (cases "Post_findOne postId d")
      case None
      with \<open>Upvote_findOne userId postId d = None\<close> Some ku show ?thesis
        by (simp add: vote_missing_post)
    next
      case (Some q)
      from \<open>Upvote_findOne userId postId d = None\<close>
      have "(userId, postId) \<notin> set (map upvote_key (upvote_table d))" by (rule findOne_None_key)
      with Some \<open>Upvote_findOne userId postId d = None\<close> \<open>sess = Some userId\<close> ku show ?thesis
        by (simp add: vote_insert key_unique_def upvote_key_def)
    qed
  next
    case (Some r)
    show ?thesis
    proof (cases "vote_value r = realValue val")
      case True
      with Some \<open>sess = Some userId\<close> ku show ?thesis by (simp add: vote_noop)
    next
      case False
      with Some \<open>sess = Some userId\<close> ku show ?thesis
        by (simp add: vote_flip key_unique_def comp_def)
    qed
  qed
qed

lemma values_ok_set_value:
  "v = 1 \<or> v = - 1 \<Longrightarrow> list_all (\<lambda>r. vote_value r = 1 \<or> vote_value r = - 1) rs \<Longrightarrow>
   list_all (\<lambda>r. vote_value r = 1 \<or> vote_value r = - 1) (map (set_value v postId userId) rs)"
  by (induction rs) (auto simp: set_value_def)

lemma values_ok_after: "values_ok d \<Longrightarrow> values_ok (fst (vote postId val sess d))"
proof (cases sess)
  case None
  assume "values_ok d"
  with None show ?thesis by (simp add: vote_unauthenticated)
next
  case (Some userId)
  assume vo: "values_ok d"
  show ?thesis
  proof (cases "Upvote_findOne userId postId d")
    case None
    show ?thesis
    proof (cases "Post_findOne postId d")
      case None
      with \<open>Upvote_findOne userId postId d = None\<close> Some vo show ?thesis
        by (simp add: vote_missing_post)
    next
      case (Some q)
      with \<open>Upvote_findOne userId postId d = None\<close> \<open>sess = Some userId\<close> vo
        realValue_cases [of val] show ?thesis
        by (auto simp add: vote_insert values_ok_def)
    qed
  next
    case (Some r)
    show ?thesis
    proof (cases "vote_value r = realValue val")
      case True
      with Some \<open>sess = Some userId\<close> vo show ?thesis by (simp add: vote_noop)
    next
      case False
      with Some \<open>sess = Some userId\<close> vo realValue_cases [of val] show ?thesis
        by (simp add: vote_flip values_ok_def values_ok_set_value)
    qed
  qed
qed

lemma points_ok_after:
  assumes "key_unique d" "values_ok d" "points_ok d"
  shows "points_ok (fst (vote postId val sess d))"
proof -
  let ?d' = "fst (vote postId val sess d)"
  have sum: "\<And>p. vote_sum ?d' p = vote_sum d p + (if p = postId then vote_delta postId val sess d else 0)"
    using assms(1) by (rule vote_sum_after)
  have adj: "points_adjust postId val sess d = vote_delta postId val sess d"
    using assms(2) by (rule adjust_is_delta)
  have "\<And>q. q \<in> set (post_table d) \<Longrightarrow>
          points (add_points (vote_delta postId val sess d) postId q) =
          vote_sum ?d' (post_id (add_points (vote_delta postId val sess d) postId q))"
  proof -
    fix q assume "q \<in> set (post_table d)"
    with assms(3) have "points q = vote_sum d (post_id q)"
      by (simp add: points_ok_def list_all_iff)
    then show "points (add_points (vote_delta postId val sess d) postId q) =
          vote_sum ?d' (post_id (add_points (vote_delta postId val sess d) postId q))"
      by (simp add: sum add_points_def)
  qed
  then show ?thesis
    unfolding points_ok_def by (simp add: post_table_after adj list_all_iff)
qed

lemma ledger_ok_after: "ledger_ok d \<Longrightarrow> ledger_ok (fst (vote postId val sess d))"
  by (simp add: ledger_ok_def key_unique_after values_ok_after points_ok_after)

lemma failed_vote_keeps_db: "vote postId val sess d = (d', Inl e) \<Longrightarrow> d' = d"
  by (auto simp: vote_def isAuth_def committed_def transaction_def insert_upvote_def
      update_post_points_def update_upvote_value_def
      split: option.splits if_splits sum.splits)

lemmas vote_eval = vote_def isAuth_def Upvote_findOne_def Post_findOne_def realValue_def
  transaction_def committed_def insert_upvote_def update_post_points_def update_upvote_value_def
  add_points_def set_value_def points_of_def

lemmas example_defs = alice_def bob_def post1_def post2_def fresh_db_def upvoted_db_def
  downvoted_db_def

lemma vote_fresh_up: "vote 1 1 (Some 1) fresh_db = (upvoted_db, Inr True)"
  by (simp add: vote_eval example_defs)

lemma vote_up_again: "vote 1 1 (Some 1) upvoted_db = (upvoted_db, Inr True)"
  by (simp add: vote_eval example_defs)

lemma vote_up_down: "vote 1 (- 1) (Some 1) upvoted_db = (downvoted_db, Inr True)"
  by (simp add: vote_eval example_defs)

lemma second_vote_noop:
  "vote postId val sess (fst (vote postId val sess d)) =
     (fst (vote postId val sess d),
      case snd (vote postId val sess d) of Inl e \<Rightarrow> Inl e | Inr _ \<Rightarrow> Inr True)"
proof (cases sess)
  case None
  then show ?thesis by (simp add: vote_unauthenticated)
next
  case (Some userId)
  show ?thesis
  proof (cases "Upvote_findOne userId postId d")
    case None
    show ?thesis
    proof (cases "Post_findOne postId d")
      case None
      with \<open>Upvote_findOne userId postId d = None\<close> Some show ?thesis
        by (simp add: vote_missing_post)
    next
      case (Some q)
      with \<open>Upvote_findOne userId postId d = None\<close> \<open>sess = Some userId\<close> show ?thesis
        by (simp add: vote_insert findOne_after_insert vote_noop)
    qed
  next
    case (Some r)
    show ?thesis
    proof (cases "vote_value r = realValue val")
      case True
      with Some \<open>sess = Some userId\<close> show ?thesis by (simp add: vote_noop)
    next
      case False
      from Some have key: "upvote_userId r = userId \<and> upvote_postId r = postId"
        by (simp add: findOne_Some_mem)
      let ?d1 = "d\<lparr>upvote_table := map (set_value (realValue val) postId userId) (upvote_table d),
        post_table := map (add_points (2 * realValue val) postId) (post_table d)\<rparr>"
      have "Upvote_findOne userId postId ?d1 = Some (set_value (realValue val) postId userId r)"
        by (simp add: findOne_after_flip Some)
      moreover have "vote_value (set_value (realValue val) postId userId r) = realValue val"
        using key by (simp add: set_value_def)
      ultimately have "vote postId val (Some userId) ?d1 = (?d1, Inr True)"
        by (rule vote_noop)
      with Some False \<open>sess = Some userId\<close> show ?thesis by (simp add: vote_flip)
    qed
  qed
qed

lemma realValue_up [simp]: "realValue 1 = 1"
  by (simp add: realValue_def)

lemma realValue_down [simp]: "realValue (- 1) = - 1"
  by (simp add: realValue_def)

lemma points_of_Some: "Post_findOne postId d = Some q \<Longrightarrow> points_of d postId = Some (points q)"
  by (simp add: points_of_def)

lemma first_time_vote:
  assumes "Upvote_findOne userId postId d = None" and "Post_findOne postId d = Some q"
  shows "snd (vote postId val (Some userId) d) = Inr True"
    and "points_of (fst (vote postId val (Some userId) d)) postId = Some (points q + realValue val)"
    and "Upvote_findOne userId postId (fst (vote postId val (Some userId) d)) =
           Some \<lparr>vote_value = realValue val, upvote_userId = userId, upvote_postId = postId\<rparr>"
proof -
  let ?d' = "fst (vote postId val (Some userId) d)"
  have "post_table ?d' = map (add_points (realValue val) postId) (post_table d)"
    using assms by (simp add: vote_insert)
  then have "points_of ?d' postId =
      map_option (\<lambda>x. if postId = postId then x + realValue val else x) (points_of d postId)"
    by (rule points_of_add_points)
  then show "points_of ?d' postId = Some (points q + realValue val)"
    using assms(2) by (simp add: points_of_Some)
  show "snd (vote postId val (Some userId) d) = Inr True"
    using assms by (simp add: vote_insert)
  show "Upvote_findOne userId postId ?d' =
           Some \<lparr>vote_value = realValue val, upvote_userId = userId, upvote_postId = postId\<rparr>"
    using assms by (simp add: vote_insert findOne_after_insert)
qed

lemma flip_vote:
  assumes "Upvote_findOne userId postId d = Some r" and "vote_value r \<noteq> realValue val"
  shows "snd (vote postId val (Some userId) d) = Inr True"
    and "points_of (fst (vote postId val (Some userId) d)) i =
           map_option (\<lambda>x. if i = postId then x + 2 * realValue val else x) (points_of d i)"
    and "Upvote_findOne userId postId (fst (vote postId val (Some userId) d)) =
           Some (r\<lparr>vote_value := realValue val\<rparr>)"
proof -
  from assms(1) have key: "upvote_userId r = userId \<and> upvote_postId r = postId"
    by (simp add: findOne_Some_mem)
  show "snd (vote postId val (Some userId) d) = Inr True"
    using assms by (simp add: vote_flip)
  show "points_of (fst (vote postId val (Some userId) d)) i =
           map_option (\<lambda>x. if i = postId then x + 2 * realValue val else x) (points_of d i)"
    using assms by (simp add: vote_flip points_of_add_points [where d = d])
  show "Upvote_findOne userId postId (fst (vote postId val (Some userId) d)) =
           Some (r\<lparr>vote_value := realValue val\<rparr>)"
    using assms key by (simp add: vote_flip findOne_after_flip set_value_def)
qed

text \<open>After a vote for \<open>+1\<close> on an existing post the caller's row holds \<open>+1\<close>.\<close>

lemma row_after_upvote:
  assumes "Post_findOne postId d = Some q"
  shows "\<exists>r. Upvote_findOne userId postId (fst (vote postId 1 (Some userId) d)) = Some r \<and>
             vote_value r = 1"
proof (cases "Upvote_findOne userId postId d")
  case None
  with assms show ?thesis by (simp add: first_time_vote(3))
next
  case (Some r)
  show ?thesis
  proof (cases "vote_value r = realValue 1")
    case True
    with Some show ?thesis by (simp add: vote_noop)
  next
    case False
    with Some show ?thesis by (simp add: flip_vote(3))
  qed
qed

lemma Post_findOne_after:
  "Post_findOne postId d = Some q \<Longrightarrow>
   Post_findOne postId (fst (vote i val sess d)) = Some (add_points (points_adjust i val sess d) i q)"
  by (simp add: Post_findOne_def post_table_after find_add_points)

lemma up_then_down:
  assumes "Post_findOne postId d = Some q"
  shows "points_of (fst (vote postId (- 1) (Some userId) (fst (vote postId 1 (Some userId) d)))) postId =
         map_option (\<lambda>x. x - 2) (points_of (fst (vote postId 1 (Some userId) d)) postId)"
proof -
  let ?d1 = "fst (vote postId 1 (Some userId) d)"
  from assms obtain r where r: "Upvote_findOne userId postId ?d1 = Some r" "vote_value r = 1"
    using row_after_upvote by blast
  then have "vote_value r \<noteq> realValue (- 1)" by simp
  with r(1) have "points_of (fst (vote postId (- 1) (Some userId) ?d1)) postId =
           map_option (\<lambda>x. if postId = postId then x + 2 * realValue (- 1) else x) (points_of ?d1 postId)"
    by (rule flip_vote(2))
  then show ?thesis by simp
qed

lemma vote_returns_true: "vote postId val sess d = (d', Inr b) \<Longrightarrow> b"
  by (auto simp: vote_def isAuth_def committed_def transaction_def
      split: option.splits if_splits sum.splits)

lemma points_change_is_sum_change:
  assumes "key_unique d" and "values_ok d"
  shows "list_all2
           (\<lambda>q q'. q' = q\<lparr>points := points q +
                        (vote_sum (fst (vote postId val sess d)) (post_id q) - vote_sum d (post_id q))\<rparr>)
           (post_table d) (post_table (fst (vote postId val sess d)))"
proof -
  have "\<And>q. add_points (points_adjust postId val sess d) postId q =
          q\<lparr>points := points q +
               (vote_sum (fst (vote postId val sess d)) (post_id q) - vote_sum d (post_id q))\<rparr>"
    using assms by (simp add: vote_sum_after adjust_is_delta add_points_def)
  then show ?thesis
    by (simp add: post_table_after list_all2_conv_all_nth)
qed

lemma votes_from_empty_ledger:
  assumes "upvote_table d = []" and "list_all (\<lambda>q. points q = 0) (post_table d)"
  shows "ledger_ok (run_votes calls d)"
proof -
  have start: "ledger_ok d"
    using assms by (simp add: ledger_ok_def key_unique_def values_ok_def points_ok_def vote_sum_def)
  have "\<And>d. ledger_ok d \<Longrightarrow> ledger_ok (run_votes calls d)"
  proof (induction calls)
    case Nil
    then show ?case by simp
  next
    case (Cons call calls)
    obtain postId val sess where call: "call = (postId, val, sess)" by (cases call)
    from Cons.prems have "ledger_ok (fst (vote postId val sess d))" by (rule ledger_ok_after)
    then show ?case unfolding call by (simp add: Cons.IH)
  qed
  with start show ?thesis by simp
qed

text \<open>
  Calls that run one after another. Where no pair of user and post has two upvote rows and
  every stored vote is +1 or -1, a call of \<open>vote\<close> keeps both, changes the points of every post by exactly the change
  of the sum of the votes that reference it, and so keeps every post's points equal to
  that sum. The insert branch adds one row with the normalized value and adds that value
  to the points; the flip branch sets the row to the normalized value and adds the change
  of the row's value to the points; the no-op branch returns the database as it was. A
  call that does not return \<open>true\<close> leaves the database as it was: nothing of its
  transaction is kept. So every database reached by calls of \<open>vote\<close> from one with no
  upvote row and all points 0 has every post's points equal to the sum of its votes.
\<close>

lemma sequential_votes_keep_points_equal_to_vote_sum:
  assumes "key_unique d" and "values_ok d" and "vote postId val sess d = (d', res)"
  shows "key_unique d' \<and> values_ok d' \<and>
     (points_ok d \<longrightarrow> points_ok d') \<and>
     list_all2 (\<lambda>q q'. q' = q\<lparr>points := points q +
                           (vote_sum d' (post_id q) - vote_sum d (post_id q))\<rparr>)
       (post_table d) (post_table d') \<and>
     (res \<noteq> Inr True \<longrightarrow> d' = d) \<and>
     (\<forall>userId. sess = Some userId \<and> Upvote_findOne userId postId d = None \<and>
          Post_findOne postId d \<noteq> None \<longrightarrow>
        res = Inr True \<and>
        upvote_table d' = upvote_table d @
          [\<lparr>vote_value = realValue val, upvote_userId = userId, upvote_postId = postId\<rparr>] \<and>
        post_table d' = map (add_points (realValue val) postId) (post_table d)) \<and>
     (\<forall>userId r. sess = Some userId \<and> Upvote_findOne userId postId d = Some r \<and>
          vote_value r \<noteq> realValue val \<longrightarrow>
        res = Inr True \<and>
        upvote_table d' = map (set_value (realValue val) postId userId) (upvote_table d) \<and>
        post_table d' = map (add_points (realValue val - vote_value r) postId) (post_table d)) \<and>
     (\<forall>userId r. sess = Some userId \<and> Upvote_findOne userId postId d = Some r \<and>
          vote_value r = realValue val \<longrightarrow>
        res = Inr True \<and> d' = d) \<and>
     (\<forall>d0 calls. upvote_table d0 = [] \<and> list_all (\<lambda>q. points q = 0) (post_table d0) \<longrightarrow>
        key_unique (run_votes calls d0) \<and> values_ok (run_votes calls d0) \<and>
        points_ok (run_votes calls d0))"
proof -
  from assms(3) have d': "d' = fst (vote postId val sess d)" by simp
  have runs: "\<forall>d0 calls. upvote_table d0 = [] \<and> list_all (\<lambda>q. points q = 0) (post_table d0) \<longrightarrow>
        key_unique (run_votes calls d0) \<and> values_ok (run_votes calls d0) \<and>
        points_ok (run_votes calls d0)"
    using votes_from_empty_ledger by (simp add: ledger_ok_def)
  have inv: "key_unique d' \<and> values_ok d' \<and> (points_ok d \<longrightarrow> points_ok d')"
    unfolding d' using assms(1,2) by (simp add: key_unique_after values_ok_after points_ok_after)
  have delta: "list_all2 (\<lambda>q q'. q' = q\<lparr>points := points q +
                           (vote_sum d' (post_id q) - vote_sum d (post_id q))\<rparr>)
       (post_table d) (post_table d')"
    unfolding d' using assms(1,2) by (rule points_change_is_sum_change)
  have failed: "res \<noteq> Inr True \<longrightarrow> d' = d"
  proof (cases res)
    case (Inl e)
    with assms(3) show ?thesis by (simp add: failed_vote_keeps_db)
  next
    case (Inr b)
    with assms(3) have "vote postId val sess d = (d', Inr b)" by simp
    then have "b" by (rule vote_returns_true)
    with Inr show ?thesis by simp
  qed
  have ins: "\<forall>userId. sess = Some userId \<and> Upvote_findOne userId postId d = None \<and>
          Post_findOne postId d \<noteq> None \<longrightarrow>
        res = Inr True \<and>
        upvote_table d' = upvote_table d @
          [\<lparr>vote_value = realValue val, upvote_userId = userId, upvote_postId = postId\<rparr>] \<and>
        post_table d' = map (add_points (realValue val) postId) (post_table d)"
    using assms(3) by (auto simp: vote_insert)
  have flip: "\<forall>userId r. sess = Some userId \<and> Upvote_findOne userId postId d = Some r \<and>
          vote_value r \<noteq> realValue val \<longrightarrow>
        res = Inr True \<and>
        upvote_table d' = map (set_value (realValue val) postId userId) (upvote_table d) \<and>
        post_table d' = map (add_points (realValue val - vote_value r) postId) (post_table d)"
  proof (intro allI impI)
    fix userId r
    assume h: "sess = Some userId \<and> Upvote_findOne userId postId d = Some r \<and>
          vote_value r \<noteq> realValue val"
    then have "Upvote_findOne userId postId d = Some r" by simp
    then have "r \<in> set (upvote_table d)" by (simp add: findOne_Some_mem)
    with assms(2) have "vote_value r = 1 \<or> vote_value r = - 1" by (rule values_ok_mem)
    with h realValue_cases [of val] have eq: "realValue val - vote_value r = 2 * realValue val"
      by auto
    from h have "vote postId val sess d =
        (d\<lparr>upvote_table := map (set_value (realValue val) postId userId) (upvote_table d),
           post_table := map (add_points (2 * realValue val) postId) (post_table d)\<rparr>, Inr True)"
      by (simp add: vote_flip)
    with assms(3) have "res = Inr True" and
      "d' = d\<lparr>upvote_table := map (set_value (realValue val) postId userId) (upvote_table d),
           post_table := map (add_points (2 * realValue val) postId) (post_table d)\<rparr>"
      by simp_all
    then show "res = Inr True \<and>
        upvote_table d' = map (set_value (realValue val) postId userId) (upvote_table d) \<and>
        post_table d' = map (add_points (realValue val - vote_value r) postId) (post_table d)"
      by (simp add: eq)
  qed
  have noop: "\<forall>userId r. sess = Some userId \<and> Upvote_findOne userId postId d = Some r \<and>
          vote_value r = realValue val \<longrightarrow> res = Inr True \<and> d' = d"
    using assms(3) by (auto simp: vote_noop)
  from inv delta failed ins flip noop runs show ?thesis by blast
qed

lemma sequential_votes_example:
  "key_unique upvoted_db \<and> values_ok upvoted_db \<and> points_ok upvoted_db \<and>
   vote 1 (- 1) (Some 1) upvoted_db = (downvoted_db, Inr True) \<and>
   key_unique downvoted_db \<and> values_ok downvoted_db \<and> points_ok downvoted_db \<and>
   Upvote_findOne 1 1 upvoted_db = Some \<lparr>vote_value = 1, upvote_userId = 1, upvote_postId = 1\<rparr> \<and>
   upvote_table downvoted_db = map (set_value (realValue (- 1)) 1 1) (upvote_table upvoted_db) \<and>
   post_table downvoted_db = map (add_points (realValue (- 1) - 1) 1) (post_table upvoted_db) \<and>
   upvote_table fresh_db = [] \<and> list_all (\<lambda>q. points q = 0) (post_table fresh_db) \<and>
   run_votes [(1, 1, Some 1), (1, - 1, Some 1)] fresh_db = downvoted_db \<and>
   points_ok (run_votes [(1, 1, Some 1), (1, - 1, Some 1)] fresh_db)"
proof -
  have e: "upvote_table fresh_db = [] \<and> list_all (\<lambda>q. points q = 0) (post_table fresh_db)"
    by (simp add: example_defs)
  have r: "run_votes [(1, 1, Some 1), (1, - 1, Some 1)] fresh_db = downvoted_db"
    by (simp add: vote_fresh_up vote_up_down)
  have k: "key_unique upvoted_db"
    by (simp add: key_unique_def upvoted_db_def)
  have v: "values_ok upvoted_db"
    by (simp add: values_ok_def upvoted_db_def)
  have p: "points_ok upvoted_db"
    by (simp add: points_ok_def vote_sum_def example_defs)
  have f: "Upvote_findOne 1 1 upvoted_db =
      Some \<lparr>vote_value = 1, upvote_userId = 1, upvote_postId = 1\<rparr>"
    by (simp add: Upvote_findOne_def upvoted_db_def)
  from sequential_votes_keep_points_equal_to_vote_sum [OF k v vote_up_down] k v p f vote_up_down e r
  show ?thesis by simp
qed

text \<open>
  The two steps run back to back are the call itself.
\<close>

lemma vote_in_two_steps:
  "vote postId val sess d = vote_write (vote_read postId val sess d) d"
  by (simp add: vote_def vote_read_def vote_write_def split: option.splits)

text \<open>
  A transaction keeps nothing when one of its statements fails, also when statements
  before it had changed rows.
\<close>

lemma transaction_keeps_nothing_on_failure:
  "transaction qs d = (d', Inl e) \<Longrightarrow> d' = d"
  by (auto simp: transaction_def split: sum.splits)

lemma transaction_is_all_or_nothing:
  "transaction qs d = (case run_statements qs d of Inl e \<Rightarrow> (d, Inl e) | Inr d' \<Rightarrow> (d', Inr ()))"
  by (simp add: transaction_def)

lemma transaction_rolls_back_example:
  "run_statements [update_post_points 1 1] upvoted_db \<noteq> Inr upvoted_db \<and>
   transaction [update_post_points 1 1, insert_upvote 1 1 1] upvoted_db =
     (upvoted_db, Inl \<lparr>pg_code = ''23505'', pg_detail = []\<rparr>)"
  by (simp add: transaction_def update_post_points_def insert_upvote_def Upvote_findOne_def
      add_points_def example_defs)

text \<open>
  C1. The claim fails on the code when two calls overlap. Alice holds +1 on the first post,
  whose points are 1, and sends two votes for -1. Both reads see the row with +1 and
  choose the flip branch; both transactions commit and both calls return \<open>true\<close>. The row
  is set to -1 twice, so the sum of the votes is -1, and the points get -2 twice, so they
  are -3: the second flip adjusts the points by -2 while the row's value does not change.
\<close>

theorem overlapping_flips_break_the_points_invariant:
  "key_unique upvoted_db \<and> values_ok upvoted_db \<and> points_ok upvoted_db \<and>
   vote_read 1 (- 1) (Some 1) upvoted_db = Flip (- 1) 1 1 \<and>
   vote_overlapping (1, - 1, Some 1) (1, - 1, Some 1) upvoted_db =
     (twice_flipped_db, Inr True, Inr True) \<and>
   points_of twice_flipped_db 1 = Some (- 3) \<and>
   vote_sum twice_flipped_db 1 = - 1 \<and>
   \<not> points_ok twice_flipped_db \<and>
   fst (vote 1 (- 1) (Some 1) (fst (vote 1 (- 1) (Some 1) upvoted_db))) = downvoted_db \<and>
   points_ok downvoted_db"
proof -
  have inv: "key_unique upvoted_db \<and> values_ok upvoted_db \<and> points_ok upvoted_db"
    by (simp add: key_unique_def values_ok_def points_ok_def vote_sum_def example_defs)
  have plan: "vote_read 1 (- 1) (Some 1) upvoted_db = Flip (- 1) 1 1"
    by (simp add: vote_read_def isAuth_def Upvote_findOne_def upvoted_db_def)
  have first: "vote_write (Flip (- 1) 1 1) upvoted_db = (downvoted_db, Inr True)"
    by (simp add: vote_write_def transaction_def committed_def update_upvote_value_def
        update_post_points_def set_value_def add_points_def example_defs)
  have second: "vote_write (Flip (- 1) 1 1) downvoted_db = (twice_flipped_db, Inr True)"
    by (simp add: vote_write_def transaction_def committed_def update_upvote_value_def
        update_post_points_def set_value_def add_points_def example_defs twice_flipped_db_def)
  have both: "vote_overlapping (1, - 1, Some 1) (1, - 1, Some 1) upvoted_db =
     (twice_flipped_db, Inr True, Inr True)"
    by (simp add: vote_overlapping_def plan first second)
  have after: "points_of twice_flipped_db 1 = Some (- 3) \<and> vote_sum twice_flipped_db 1 = - 1 \<and>
      \<not> points_ok twice_flipped_db"
    by (simp add: points_of_def Post_findOne_def vote_sum_def points_ok_def twice_flipped_db_def
        post1_def post2_def)
  have "vote 1 (- 1) (Some 1) downvoted_db = (downvoted_db, Inr True)"
    by (simp add: vote_eval example_defs)
  then have seq: "fst (vote 1 (- 1) (Some 1) (fst (vote 1 (- 1) (Some 1) upvoted_db))) = downvoted_db"
    by (simp add: vote_up_down)
  have ok: "points_ok downvoted_db"
    by (simp add: points_ok_def vote_sum_def example_defs)
  from inv plan both after seq ok show ?thesis by (intro conjI) simp_all
qed

text \<open>
  C4 (amended). A vote in the direction the caller's row already has writes nothing: the
  call returns \<open>true\<close> and the database is the one it was given. So the second of two
  successive calls with the same post and value changes nothing, whatever the first did,
  and for a caller with no earlier vote on an existing post two successive votes for +1
  raise the points by exactly 1.
\<close>

theorem repeat_vote_changes_nothing:
  "(Upvote_findOne userId postId d = Some r \<and> vote_value r = realValue val \<longrightarrow>
      vote postId val (Some userId) d = (d, Inr True)) \<and>
   fst (vote postId val sess (fst (vote postId val sess d))) = fst (vote postId val sess d) \<and>
   (Upvote_findOne userId postId d = None \<and> Post_findOne postId d = Some q \<longrightarrow>
      snd (vote postId 1 (Some userId) d) = Inr True \<and>
      snd (vote postId 1 (Some userId) (fst (vote postId 1 (Some userId) d))) = Inr True \<and>
      points_of d postId = Some (points q) \<and>
      points_of (fst (vote postId 1 (Some userId) (fst (vote postId 1 (Some userId) d)))) postId =
        Some (points q + 1))"
proof -
  have a: "Upvote_findOne userId postId d = Some r \<and> vote_value r = realValue val \<longrightarrow>
      vote postId val (Some userId) d = (d, Inr True)"
    by (simp add: vote_noop)
  have b: "fst (vote postId val sess (fst (vote postId val sess d))) = fst (vote postId val sess d)"
    by (simp add: second_vote_noop)
  have c: "Upvote_findOne userId postId d = None \<and> Post_findOne postId d = Some q \<longrightarrow>
      snd (vote postId 1 (Some userId) d) = Inr True \<and>
      snd (vote postId 1 (Some userId) (fst (vote postId 1 (Some userId) d))) = Inr True \<and>
      points_of d postId = Some (points q) \<and>
      points_of (fst (vote postId 1 (Some userId) (fst (vote postId 1 (Some userId) d)))) postId =
        Some (points q + 1)"
  proof
    assume h: "Upvote_findOne userId postId d = None \<and> Post_findOne postId d = Some q"
    then have f1: "snd (vote postId 1 (Some userId) d) = Inr True"
      and f2: "points_of (fst (vote postId 1 (Some userId) d)) postId = Some (points q + realValue 1)"
      by (simp_all add: first_time_vote)
    from h have f3: "points_of d postId = Some (points q)" by (simp add: points_of_Some)
    from f1 f2 f3 show "snd (vote postId 1 (Some userId) d) = Inr True \<and>
      snd (vote postId 1 (Some userId) (fst (vote postId 1 (Some userId) d))) = Inr True \<and>
      points_of d postId = Some (points q) \<and>
      points_of (fst (vote postId 1 (Some userId) (fst (vote postId 1 (Some userId) d)))) postId =
        Some (points q + 1)"
      by (simp add: second_vote_noop)
  qed
  from a b c show ?thesis by blast
qed

theorem repeat_vote_changes_nothing_witness:
  "Upvote_findOne 1 1 upvoted_db = Some \<lparr>vote_value = 1, upvote_userId = 1, upvote_postId = 1\<rparr> \<and>
   vote 1 1 (Some 1) upvoted_db = (upvoted_db, Inr True) \<and>
   Upvote_findOne 1 1 fresh_db = None \<and> Post_findOne 1 fresh_db = Some post1 \<and>
   points_of fresh_db 1 = Some 0 \<and>
   points_of (fst (vote 1 1 (Some 1) (fst (vote 1 1 (Some 1) fresh_db)))) 1 = Some 1"
proof -
  have f: "Upvote_findOne 1 1 upvoted_db =
      Some \<lparr>vote_value = 1, upvote_userId = 1, upvote_postId = 1\<rparr>"
    by (simp add: Upvote_findOne_def upvoted_db_def)
  have n: "Upvote_findOne 1 1 fresh_db = None"
    by (simp add: Upvote_findOne_def fresh_db_def)
  have p: "Post_findOne 1 fresh_db = Some post1"
    by (simp add: Post_findOne_def fresh_db_def post1_def)
  have v: "points post1 = 0" by (simp add: post1_def)
  from repeat_vote_changes_nothing
    [of 1 1 upvoted_db "\<lparr>vote_value = 1, upvote_userId = 1, upvote_postId = 1\<rparr>" 1 None]
    f have one: "vote 1 1 (Some 1) upvoted_db = (upvoted_db, Inr True)" by simp
  from repeat_vote_changes_nothing [of 1 1 fresh_db "\<lparr>vote_value = 1, upvote_userId = 1, upvote_postId = 1\<rparr>" 1 None post1] n p v
  have two: "points_of fresh_db 1 = Some 0 \<and>
   points_of (fst (vote 1 1 (Some 1) (fst (vote 1 1 (Some 1) fresh_db)))) 1 = Some 1" by simp
  from f n p one two show ?thesis by simp
qed

text \<open>
  The claim as written fails for a caller whose row already holds +1: the points are 1
  before the two calls and 1 after them, a change of 0.
\<close>

theorem repeat_vote_counterexample:
  "Upvote_findOne 1 1 upvoted_db = Some \<lparr>vote_value = 1, upvote_userId = 1, upvote_postId = 1\<rparr> \<and>
   points_of upvoted_db 1 = Some 1 \<and>
   points_of (fst (vote 1 1 (Some 1) (fst (vote 1 1 (Some 1) upvoted_db)))) 1 = Some 1 \<and>
   points_of (fst (vote 1 1 (Some 1) (fst (vote 1 1 (Some 1) upvoted_db)))) 1 \<noteq> Some (1 + 1)"
  by (simp add: vote_up_again) (simp add: points_of_def Post_findOne_def Upvote_findOne_def example_defs)

text \<open>
  C5 (amended). A vote against the direction of the caller's row sets the row to the
  normalized value and adds twice that value to the points of the post, in one
  transaction. So on an existing post a vote for -1 after a vote for +1 lowers the points
  by exactly 2 below what they were after the first vote; for a caller with no earlier
  vote that is 1 below what they were before the first vote.
\<close>

theorem flip_vote_adjusts_points_by_twice_the_value:
  "(Upvote_findOne userId postId d = Some r \<and> vote_value r \<noteq> realValue val \<longrightarrow>
      vote postId val (Some userId) d =
        (d\<lparr>upvote_table := map (set_value (realValue val) postId userId) (upvote_table d),
           post_table := map (add_points (2 * realValue val) postId) (post_table d)\<rparr>, Inr True) \<and>
      Upvote_findOne userId postId (fst (vote postId val (Some userId) d)) =
        Some (r\<lparr>vote_value := realValue val\<rparr>) \<and>
      points_of (fst (vote postId val (Some userId) d)) postId =
        map_option (\<lambda>x. x + 2 * realValue val) (points_of d postId)) \<and>
   (Post_findOne postId d = Some q \<longrightarrow>
      points_of (fst (vote postId 1 (Some userId) d)) postId \<noteq> None \<and>
      points_of (fst (vote postId (- 1) (Some userId) (fst (vote postId 1 (Some userId) d)))) postId =
        map_option (\<lambda>x. x - 2) (points_of (fst (vote postId 1 (Some userId) d)) postId)) \<and>
   (Post_findOne postId d = Some q \<and> Upvote_findOne userId postId d = None \<longrightarrow>
      points_of (fst (vote postId (- 1) (Some userId) (fst (vote postId 1 (Some userId) d)))) postId =
        Some (points q - 1))"
proof -
  have a: "Upvote_findOne userId postId d = Some r \<and> vote_value r \<noteq> realValue val \<longrightarrow>
      vote postId val (Some userId) d =
        (d\<lparr>upvote_table := map (set_value (realValue val) postId userId) (upvote_table d),
           post_table := map (add_points (2 * realValue val) postId) (post_table d)\<rparr>, Inr True) \<and>
      Upvote_findOne userId postId (fst (vote postId val (Some userId) d)) =
        Some (r\<lparr>vote_value := realValue val\<rparr>) \<and>
      points_of (fst (vote postId val (Some userId) d)) postId =
        map_option (\<lambda>x. x + 2 * realValue val) (points_of d postId)"
  proof
    assume h: "Upvote_findOne userId postId d = Some r \<and> vote_value r \<noteq> realValue val"
    then have h1: "Upvote_findOne userId postId d = Some r" and h2: "vote_value r \<noteq> realValue val"
      by simp_all
    from h1 h2 have "points_of (fst (vote postId val (Some userId) d)) postId =
           map_option (\<lambda>x. if postId = postId then x + 2 * realValue val else x) (points_of d postId)"
      by (rule flip_vote(2))
    then show "vote postId val (Some userId) d =
        (d\<lparr>upvote_table := map (set_value (realValue val) postId userId) (upvote_table d),
           post_table := map (add_points (2 * realValue val) postId) (post_table d)\<rparr>, Inr True) \<and>
      Upvote_findOne userId postId (fst (vote postId val (Some userId) d)) =
        Some (r\<lparr>vote_value := realValue val\<rparr>) \<and>
      points_of (fst (vote postId val (Some userId) d)) postId =
        map_option (\<lambda>x. x + 2 * realValue val) (points_of d postId)"
      using h1 h2 flip_vote(3) [OF h1 h2] vote_flip [OF h1 h2] by simp
  qed
  have b: "Post_findOne postId d = Some q \<longrightarrow>
      points_of (fst (vote postId 1 (Some userId) d)) postId \<noteq> None \<and>
      points_of (fst (vote postId (- 1) (Some userId) (fst (vote postId 1 (Some userId) d)))) postId =
        map_option (\<lambda>x. x - 2) (points_of (fst (vote postId 1 (Some userId) d)) postId)"
  proof
    assume h: "Post_findOne postId d = Some q"
    then have "Post_findOne postId (fst (vote postId 1 (Some userId) d)) \<noteq> None"
      by (simp add: Post_findOne_after)
    then have "points_of (fst (vote postId 1 (Some userId) d)) postId \<noteq> None"
      by (simp add: points_of_def)
    moreover from h have
      "points_of (fst (vote postId (- 1) (Some userId) (fst (vote postId 1 (Some userId) d)))) postId =
        map_option (\<lambda>x. x - 2) (points_of (fst (vote postId 1 (Some userId) d)) postId)"
      by (rule up_then_down)
    ultimately show "points_of (fst (vote postId 1 (Some userId) d)) postId \<noteq> None \<and>
      points_of (fst (vote postId (- 1) (Some userId) (fst (vote postId 1 (Some userId) d)))) postId =
        map_option (\<lambda>x. x - 2) (points_of (fst (vote postId 1 (Some userId) d)) postId)"
      by simp
  qed
  have c: "Post_findOne postId d = Some q \<and> Upvote_findOne userId postId d = None \<longrightarrow>
      points_of (fst (vote postId (- 1) (Some userId) (fst (vote postId 1 (Some userId) d)))) postId =
        Some (points q - 1)"
  proof
    assume h: "Post_findOne postId d = Some q \<and> Upvote_findOne userId postId d = None"
    then have "points_of (fst (vote postId 1 (Some userId) d)) postId = Some (points q + realValue 1)"
      by (simp add: first_time_vote(2))
    with h show "points_of (fst (vote postId (- 1) (Some userId) (fst (vote postId 1 (Some userId) d)))) postId =
        Some (points q - 1)"
      by (simp add: up_then_down)
  qed
  from a b c show ?thesis by blast
qed

theorem flip_vote_adjusts_points_by_twice_the_value_witness:
  "Upvote_findOne 1 1 upvoted_db = Some \<lparr>vote_value = 1, upvote_userId = 1, upvote_postId = 1\<rparr> \<and>
   vote 1 (- 1) (Some 1) upvoted_db = (downvoted_db, Inr True) \<and>
   Upvote_findOne 1 1 downvoted_db = Some \<lparr>vote_value = - 1, upvote_userId = 1, upvote_postId = 1\<rparr> \<and>
   points_of upvoted_db 1 = Some 1 \<and> points_of downvoted_db 1 = Some (- 1) \<and>
   Post_findOne 1 fresh_db = Some post1 \<and> Upvote_findOne 1 1 fresh_db = None \<and>
   points_of fresh_db 1 = Some 0 \<and>
   points_of (fst (vote 1 1 (Some 1) fresh_db)) 1 = Some 1 \<and>
   points_of (fst (vote 1 (- 1) (Some 1) (fst (vote 1 1 (Some 1) fresh_db)))) 1 = Some (- 1)"
proof -
  have f: "Upvote_findOne 1 1 upvoted_db =
      Some \<lparr>vote_value = 1, upvote_userId = 1, upvote_postId = 1\<rparr>"
    by (simp add: Upvote_findOne_def upvoted_db_def)
  have n: "Upvote_findOne 1 1 fresh_db = None"
    by (simp add: Upvote_findOne_def fresh_db_def)
  have p: "Post_findOne 1 fresh_db = Some post1"
    by (simp add: Post_findOne_def fresh_db_def post1_def)
  have v: "points post1 = 0" by (simp add: post1_def)
  have pu: "points_of upvoted_db 1 = Some 1" and pf: "points_of fresh_db 1 = Some 0"
    by (simp_all add: points_of_def Post_findOne_def example_defs)
  have g: "Upvote_findOne 1 1 upvoted_db =
        Some \<lparr>vote_value = 1, upvote_userId = 1, upvote_postId = 1\<rparr> \<and>
      vote_value \<lparr>vote_value = 1, upvote_userId = 1, upvote_postId = 1\<rparr> \<noteq> realValue (- 1)"
    by (simp add: f)
  from flip_vote_adjusts_points_by_twice_the_value
    [of 1 1 upvoted_db "\<lparr>vote_value = 1, upvote_userId = 1, upvote_postId = 1\<rparr>" "- 1" post1]
  have "Upvote_findOne 1 1 upvoted_db =
        Some \<lparr>vote_value = 1, upvote_userId = 1, upvote_postId = 1\<rparr> \<and>
      vote_value \<lparr>vote_value = 1, upvote_userId = 1, upvote_postId = 1\<rparr> \<noteq> realValue (- 1) \<longrightarrow>
      vote 1 (- 1) (Some 1) upvoted_db =
        (upvoted_db\<lparr>upvote_table := map (set_value (realValue (- 1)) 1 1) (upvote_table upvoted_db),
           post_table := map (add_points (2 * realValue (- 1)) 1) (post_table upvoted_db)\<rparr>, Inr True) \<and>
      Upvote_findOne 1 1 (fst (vote 1 (- 1) (Some 1) upvoted_db)) =
        Some (\<lparr>vote_value = 1, upvote_userId = 1, upvote_postId = 1\<rparr>\<lparr>vote_value := realValue (- 1)\<rparr>) \<and>
      points_of (fst (vote 1 (- 1) (Some 1) upvoted_db)) 1 =
        map_option (\<lambda>x. x + 2 * realValue (- 1)) (points_of upvoted_db 1)"
    by (rule conjunct1)
  from this g have "vote 1 (- 1) (Some 1) upvoted_db =
        (upvoted_db\<lparr>upvote_table := map (set_value (realValue (- 1)) 1 1) (upvote_table upvoted_db),
           post_table := map (add_points (2 * realValue (- 1)) 1) (post_table upvoted_db)\<rparr>, Inr True) \<and>
      Upvote_findOne 1 1 (fst (vote 1 (- 1) (Some 1) upvoted_db)) =
        Some (\<lparr>vote_value = 1, upvote_userId = 1, upvote_postId = 1\<rparr>\<lparr>vote_value := realValue (- 1)\<rparr>) \<and>
      points_of (fst (vote 1 (- 1) (Some 1) upvoted_db)) 1 =
        map_option (\<lambda>x. x + 2 * realValue (- 1)) (points_of upvoted_db 1)"
    by (rule mp)
  then have "Upvote_findOne 1 1 (fst (vote 1 (- 1) (Some 1) upvoted_db)) =
        Some (\<lparr>vote_value = 1, upvote_userId = 1, upvote_postId = 1\<rparr>\<lparr>vote_value := realValue (- 1)\<rparr>) \<and>
      points_of (fst (vote 1 (- 1) (Some 1) upvoted_db)) 1 =
        map_option (\<lambda>x. x + 2 * realValue (- 1)) (points_of upvoted_db 1)"
    by (rule conjunct2)
  with pu have one: "Upvote_findOne 1 1 (fst (vote 1 (- 1) (Some 1) upvoted_db)) =
        Some \<lparr>vote_value = - 1, upvote_userId = 1, upvote_postId = 1\<rparr> \<and>
      points_of (fst (vote 1 (- 1) (Some 1) upvoted_db)) 1 = Some (- 1)"
    by simp
  have "Post_findOne 1 fresh_db = Some post1 \<and> Upvote_findOne 1 1 fresh_db = None \<longrightarrow>
      points_of (fst (vote 1 (- 1) (Some 1) (fst (vote 1 1 (Some 1) fresh_db)))) 1 =
        Some (points post1 - 1)"
    using flip_vote_adjusts_points_by_twice_the_value [of 1 1 fresh_db "\<lparr>vote_value = 1, upvote_userId = 1, upvote_postId = 1\<rparr>" 1 post1]
    by (rule conjunct2 [THEN conjunct2])
  with n p v
  have two: "points_of (fst (vote 1 (- 1) (Some 1) (fst (vote 1 1 (Some 1) fresh_db)))) 1 = Some (- 1)"
    by simp
  from f n p pu pf one two show ?thesis by (simp add: vote_up_down vote_fresh_up)
qed

text \<open>
  The claim as written fails for a first vote: the points are 0 before the vote for +1 and
  -1 after the vote for -1 that follows, a change of -1 and not of -2.
\<close>

theorem flip_vote_counterexample:
  "Upvote_findOne 1 1 fresh_db = None \<and>
   points_of fresh_db 1 = Some 0 \<and>
   points_of (fst (vote 1 (- 1) (Some 1) (fst (vote 1 1 (Some 1) fresh_db)))) 1 = Some (- 1) \<and>
   points_of (fst (vote 1 (- 1) (Some 1) (fst (vote 1 1 (Some 1) fresh_db)))) 1 \<noteq> Some (0 - 2)"
  by (simp add: vote_fresh_up vote_up_down)
     (simp add: points_of_def Post_findOne_def Upvote_findOne_def example_defs)

section \<open>Properties of the feed query\<close>

lemma posts_rows_no_cursor:
  assumes "\<not> truthy_string cursor"
  shows "posts_rows limit cursor sess d =
     (if min 50 limit + 1 < 0 then Inl (sql_error ''2201W'')
      else Inr (take (nat (min 50 limit + 1)) (feed_candidates None sess d)))"
  using assms
  by (auto simp: posts_rows_def posts_replacements_def connection_query_def params_required_def
      nth_param_def truthy_id_def truthy_string_def viewer_of_def feed_candidates_def Let_def
      split: option.splits)

lemma posts_rows_cursor:
  assumes "c \<noteq> []"
  shows "posts_rows limit (Some c) sess d =
     (case new_Date (parseInt c) of
        InvalidDate \<Rightarrow> Inl (sql_error ''22007'')
      | ValidDate t \<Rightarrow>
          if min 50 limit + 1 < 0 then Inl (sql_error ''2201W'')
          else Inr (take (nat (min 50 limit + 1)) (feed_candidates (Some t) sess d)))"
  using assms
  by (auto simp: posts_rows_def posts_replacements_def connection_query_def params_required_def
      nth_param_def truthy_id_def truthy_string_def viewer_of_def feed_candidates_def Let_def
      split: option.splits js_date.splits)

lemma first_replacement:
  "hd (fst (posts_replacements limit cursor sess)) = PInt (min 50 limit + 1)"
  by (simp add: posts_replacements_def Let_def split: option.splits)

lemma slice0_nonneg: "0 \<le> e \<Longrightarrow> slice0 e xs = take (nat e) xs"
  by (cases "e \<le> int (length xs)") (simp_all add: slice0_def Let_def min_def)

lemma posts_rows_length:
  "posts_rows limit cursor sess d = Inr rows \<Longrightarrow> int (length rows) \<le> min 50 limit + 1"
proof (cases "truthy_string cursor")
  case False
  assume "posts_rows limit cursor sess d = Inr rows"
  with False show ?thesis
    by (auto simp: posts_rows_no_cursor split: if_splits)
next
  case True
  then obtain c where c: "cursor = Some c" "c \<noteq> []"
    by (auto simp: truthy_string_def split: option.splits)
  assume "posts_rows limit cursor sess d = Inr rows"
  with c show ?thesis
    by (auto simp: posts_rows_cursor split: if_splits js_date.splits)
qed

lemma posts_rows_candidates:
  "posts_rows limit cursor sess d = Inr rows \<Longrightarrow>
   \<exists>bound n. rows = take n (feed_candidates bound sess d) \<and>
     (truthy_string cursor \<longrightarrow> (\<exists>c. cursor = Some c \<and> new_Date (parseInt c) = ValidDate (the bound) \<and> bound \<noteq> None))"
proof (cases "truthy_string cursor")
  case False
  assume "posts_rows limit cursor sess d = Inr rows"
  with False show ?thesis
    by (auto simp: posts_rows_no_cursor split: if_splits)
next
  case True
  then obtain c where c: "cursor = Some c" "c \<noteq> []"
    by (auto simp: truthy_string_def split: option.splits)
  assume "posts_rows limit cursor sess d = Inr rows"
  with c show ?thesis
    by (auto simp: posts_rows_cursor split: if_splits js_date.splits)
qed

lemma new_Date_valid: "new_Date n = ValidDate t \<Longrightarrow> n = Some t"
  by (auto simp: new_Date_def split: option.splits if_splits)

lemma candidates_sorted:
  "sorted_wrt (\<lambda>a b. createdAt b \<le> createdAt a) (feed_candidates bound sess d)"
proof -
  have "sorted (map createdAt (sort_key createdAt xs))" for xs :: "post_row list"
    by (rule sorted_sort_key)
  then have "sorted_wrt (\<lambda>a b. createdAt a \<le> createdAt b) (sort_key createdAt xs)"
    for xs :: "post_row list"
    by (simp add: sorted_map)
  then show ?thesis
    by (simp add: feed_candidates_def order_by_createdAt_desc_def sorted_wrt_rev)
qed

lemma candidates_older:
  "row \<in> set (feed_candidates (Some t) sess d) \<Longrightarrow> createdAt row < t"
  by (simp add: feed_candidates_def order_by_createdAt_desc_def)

lemma candidates_all:
  "feed_candidates None sess d = order_by_createdAt_desc (joined_rows (viewer_of sess) d)"
  by (simp add: feed_candidates_def)

lemma posts_result:
  "posts limit cursor sess d =
     (case posts_rows limit cursor sess d of
        Inl e \<Rightarrow> Inl (QueryFailed e)
      | Inr rows \<Rightarrow> Inr \<lparr>pp_posts = slice0 (min 50 limit) rows,
                         hasMore = (int (length rows) = min 50 limit + 1)\<rparr>)"
  by (simp add: posts_def Let_def)

lemma slice0_take: "\<exists>n. slice0 e xs = take n xs"
  by (auto simp: slice0_def Let_def)

lemma posts_page:
  assumes "posts limit cursor sess d = Inr r"
  shows "\<exists>rows n. posts_rows limit cursor sess d = Inr rows \<and> pp_posts r = take n rows"
proof (cases "posts_rows limit cursor sess d")
  case (Inl e)
  with assms show ?thesis by (simp add: posts_result)
next
  case (Inr rows)
  with assms have "pp_posts r = slice0 (min 50 limit) rows"
    by (auto simp: posts_result)
  moreover obtain n where "slice0 (min 50 limit) rows = take n rows"
    using slice0_take by blast
  ultimately show ?thesis using Inr by auto
qed

lemma joined_fresh: "joined_rows None fresh_db = [row1, row2]"
  by (simp add: joined_rows_def row1_def row2_def fresh_db_def alice_def bob_def post1_def post2_def)

lemma created_rows: "createdAt row1 = 2000" "createdAt row2 = 3000"
  by (simp_all add: row1_def row2_def feed_row_def post1_def post2_def)

lemma candidates_fresh_all: "feed_candidates None None fresh_db = [row2, row1]"
  by (simp add: feed_candidates_def viewer_of_def truthy_id_def joined_fresh
      order_by_createdAt_desc_def created_rows)

lemma candidates_fresh_3000: "feed_candidates (Some 3000) None fresh_db = [row1]"
  by (simp add: feed_candidates_def viewer_of_def truthy_id_def joined_fresh
      order_by_createdAt_desc_def created_rows)

lemma parseInt_3000: "parseInt ''3000'' = Some 3000"
  by (simp add: parseInt_def parse_magnitude_def digit_of_def digits_value_def is_ws_def)

lemma posts_negative_one: "posts (- 1) None None fresh_db = Inr \<lparr>pp_posts = [], hasMore = True\<rparr>"
  by (simp add: posts_result posts_rows_no_cursor truthy_string_def slice0_def)

lemma posts_negative_two: "posts (- 2) None None fresh_db = Inl (QueryFailed (sql_error ''2201W''))"
  by (simp add: posts_result posts_rows_no_cursor truthy_string_def)

lemma posts_one: "posts 1 None None fresh_db = Inr \<lparr>pp_posts = [row2], hasMore = True\<rparr>"
  by (simp add: posts_result posts_rows_no_cursor truthy_string_def slice0_def candidates_fresh_all)

lemma posts_rows_one: "posts_rows 1 None None fresh_db = Inr [row2, row1]"
  by (simp add: posts_rows_no_cursor truthy_string_def candidates_fresh_all)

lemma posts_cursor_3000:
  "posts 10 (Some ''3000'') None fresh_db = Inr \<lparr>pp_posts = [row1], hasMore = False\<rparr>"
  by (simp add: posts_result posts_rows_cursor parseInt_3000 new_Date_def slice0_def
      candidates_fresh_3000)

text \<open>
  C6 (amended). For every limit that is not negative, the effective limit is
  \<open>min(50, limit)\<close>; the query is sent with the effective limit plus one as its \<open>$1\<close> and
  returns at most that many rows; \<open>posts\<close> returns the first effective-limit rows of the
  query's result, so at most the effective limit, and \<open>hasMore\<close> is true exactly when the
  query returned the effective limit plus one rows. With no cursor the query succeeds.
\<close>

theorem posts_page_is_bounded_by_the_limit:
  assumes "0 \<le> limit"
  shows "hd (fst (posts_replacements limit cursor sess)) = PInt (min 50 limit + 1) \<and>
     (\<forall>rows. posts_rows limit cursor sess d = Inr rows \<longrightarrow>
        int (length rows) \<le> min 50 limit + 1 \<and>
        posts limit cursor sess d =
          Inr \<lparr>pp_posts = take (nat (min 50 limit)) rows,
               hasMore = (int (length rows) = min 50 limit + 1)\<rparr>) \<and>
     (\<forall>e. posts_rows limit cursor sess d = Inl e \<longrightarrow>
        posts limit cursor sess d = Inl (QueryFailed e)) \<and>
     (\<forall>r. posts limit cursor sess d = Inr r \<longrightarrow> int (length (pp_posts r)) \<le> min 50 limit) \<and>
     (\<not> truthy_string cursor \<longrightarrow>
        posts_rows limit cursor sess d =
          Inr (take (nat (min 50 limit + 1)) (feed_candidates None sess d)))"
proof -
  from assms have eff: "0 \<le> min 50 limit" by simp
  have a: "hd (fst (posts_replacements limit cursor sess)) = PInt (min 50 limit + 1)"
    by (rule first_replacement)
  have b: "\<forall>rows. posts_rows limit cursor sess d = Inr rows \<longrightarrow>
        int (length rows) \<le> min 50 limit + 1 \<and>
        posts limit cursor sess d =
          Inr \<lparr>pp_posts = take (nat (min 50 limit)) rows,
               hasMore = (int (length rows) = min 50 limit + 1)\<rparr>"
    using eff by (simp add: posts_rows_length posts_result slice0_nonneg)
  have c: "\<forall>e. posts_rows limit cursor sess d = Inl e \<longrightarrow>
        posts limit cursor sess d = Inl (QueryFailed e)"
    by (simp add: posts_result)
  have e: "\<forall>r. posts limit cursor sess d = Inr r \<longrightarrow> int (length (pp_posts r)) \<le> min 50 limit"
  proof (intro allI impI)
    fix r assume r: "posts limit cursor sess d = Inr r"
    show "int (length (pp_posts r)) \<le> min 50 limit"
    proof (cases "posts_rows limit cursor sess d")
      case (Inl err)
      with r show ?thesis by (simp add: posts_result)
    next
      case (Inr rows)
      with r eff have "pp_posts r = take (nat (min 50 limit)) rows"
        by (auto simp: posts_result slice0_nonneg)
      then have "length (pp_posts r) \<le> nat (min 50 limit)" by simp
      with eff show ?thesis by linarith
    qed
  qed
  have f: "\<not> truthy_string cursor \<longrightarrow>
        posts_rows limit cursor sess d =
          Inr (take (nat (min 50 limit + 1)) (feed_candidates None sess d))"
  proof -
    from eff have "\<not> min 50 limit + 1 < 0" by linarith
    then show ?thesis by (simp add: posts_rows_no_cursor)
  qed
  from a b c e f show ?thesis by blast
qed

theorem posts_page_is_bounded_by_the_limit_witness:
  "(0::int) \<le> 1 \<and>
   hd (fst (posts_replacements 1 None None)) = PInt 2 \<and>
   posts_rows 1 None None fresh_db = Inr [row2, row1] \<and>
   posts 1 None None fresh_db = Inr \<lparr>pp_posts = [row2], hasMore = True\<rparr>"
proof -
  have h: "(0::int) \<le> 1" by simp
  from posts_page_is_bounded_by_the_limit [OF h, of None None fresh_db] posts_rows_one
  show ?thesis by simp
qed

text \<open>
  The claim as written fails for a negative limit: for \<open>-1\<close> the effective limit is \<open>-1\<close>,
  the query asks for no row, and the page holds no post, which is more than \<open>-1\<close>, with
  \<open>hasMore\<close> true; for \<open>-2\<close> the database rejects the query and \<open>posts\<close> returns nothing.
  And the query asks for the effective limit plus one rows: 51 for a limit of 100, not 101.
\<close>

theorem posts_negative_limit_counterexample:
  "posts (- 1) None None fresh_db = Inr \<lparr>pp_posts = [], hasMore = True\<rparr> \<and>
   \<not> int (length (pp_posts \<lparr>pp_posts = [], hasMore = True\<rparr>)) \<le> min 50 (- 1) \<and>
   posts (- 2) None None fresh_db = Inl (QueryFailed (sql_error ''2201W'')) \<and>
   hd (fst (posts_replacements 100 None None)) = PInt 51 \<and>
   hd (fst (posts_replacements 100 None None)) \<noteq> PInt (100 + 1)"
  by (simp add: posts_negative_one posts_negative_two first_replacement)

text \<open>
  C7. A cursor counts as supplied when it is a non-empty string, which is the test the code
  makes. With such a cursor every post of the page was created strictly before the instant
  the cursor parses to; the page is always in descending order of creation; and with no
  cursor (or an empty one) the page is cut from all joined rows, newest first, with no
  bound on the creation time. With a cursor that is a valid date and a limit that is not
  negative the query succeeds.
\<close>

theorem posts_page_is_older_than_the_cursor:
  "(c \<noteq> [] \<and> posts limit (Some c) sess d = Inr r \<longrightarrow>
      (\<exists>t. parseInt c = Some t \<and> (\<forall>row \<in> set (pp_posts r). createdAt row < t))) \<and>
   (posts limit cursor sess d = Inr r' \<longrightarrow>
      sorted_wrt (\<lambda>a b. createdAt b \<le> createdAt a) (pp_posts r')) \<and>
   (\<not> truthy_string cursor \<longrightarrow>
      posts_rows limit cursor sess d =
        (if min 50 limit + 1 < 0 then Inl (sql_error ''2201W'')
         else Inr (take (nat (min 50 limit + 1))
                (order_by_createdAt_desc (joined_rows (viewer_of sess) d))))) \<and>
   (c \<noteq> [] \<and> new_Date (parseInt c) = ValidDate t \<and> 0 \<le> limit \<longrightarrow>
      posts_rows limit (Some c) sess d =
        Inr (take (nat (min 50 limit + 1))
          (order_by_createdAt_desc
            (filter (\<lambda>row. createdAt row < t) (joined_rows (viewer_of sess) d)))))"
proof -
  have a: "c \<noteq> [] \<and> posts limit (Some c) sess d = Inr r \<longrightarrow>
      (\<exists>t. parseInt c = Some t \<and> (\<forall>row \<in> set (pp_posts r). createdAt row < t))"
  proof
    assume h: "c \<noteq> [] \<and> posts limit (Some c) sess d = Inr r"
    then obtain rows n where rows: "posts_rows limit (Some c) sess d = Inr rows"
      and page: "pp_posts r = take n rows"
      using posts_page by blast
    from h rows obtain t where t: "new_Date (parseInt c) = ValidDate t"
      and cand: "rows = take (nat (min 50 limit + 1)) (feed_candidates (Some t) sess d)"
      by (auto simp: posts_rows_cursor split: js_date.splits if_splits)
    from t have "parseInt c = Some t" by (rule new_Date_valid)
    moreover have "\<forall>row \<in> set (pp_posts r). createdAt row < t"
    proof
      fix row assume "row \<in> set (pp_posts r)"
      with page have "row \<in> set rows" by (auto dest: in_set_takeD)
      with cand have "row \<in> set (feed_candidates (Some t) sess d)" by (auto dest: in_set_takeD)
      then show "createdAt row < t" by (rule candidates_older)
    qed
    ultimately show "\<exists>t. parseInt c = Some t \<and> (\<forall>row \<in> set (pp_posts r). createdAt row < t)"
      by blast
  qed
  have b: "posts limit cursor sess d = Inr r' \<longrightarrow>
      sorted_wrt (\<lambda>a b. createdAt b \<le> createdAt a) (pp_posts r')"
  proof
    assume "posts limit cursor sess d = Inr r'"
    then obtain rows n where rows: "posts_rows limit cursor sess d = Inr rows"
      and page: "pp_posts r' = take n rows"
      using posts_page by blast
    from rows obtain bound m where "rows = take m (feed_candidates bound sess d)"
      using posts_rows_candidates by blast
    with page show "sorted_wrt (\<lambda>a b. createdAt b \<le> createdAt a) (pp_posts r')"
      by (simp add: candidates_sorted sorted_wrt_take)
  qed
  have c: "\<not> truthy_string cursor \<longrightarrow>
      posts_rows limit cursor sess d =
        (if min 50 limit + 1 < 0 then Inl (sql_error ''2201W'')
         else Inr (take (nat (min 50 limit + 1))
                (order_by_createdAt_desc (joined_rows (viewer_of sess) d))))"
  proof
    assume "\<not> truthy_string cursor"
    then have "posts_rows limit cursor sess d =
     (if min 50 limit + 1 < 0 then Inl (sql_error ''2201W'')
      else Inr (take (nat (min 50 limit + 1)) (feed_candidates None sess d)))"
      by (rule posts_rows_no_cursor)
    then show "posts_rows limit cursor sess d =
        (if min 50 limit + 1 < 0 then Inl (sql_error ''2201W'')
         else Inr (take (nat (min 50 limit + 1))
                (order_by_createdAt_desc (joined_rows (viewer_of sess) d))))"
      by (simp only: candidates_all)
  qed
  have e: "c \<noteq> [] \<and> new_Date (parseInt c) = ValidDate t \<and> 0 \<le> limit \<longrightarrow>
      posts_rows limit (Some c) sess d =
        Inr (take (nat (min 50 limit + 1))
          (order_by_createdAt_desc
            (filter (\<lambda>row. createdAt row < t) (joined_rows (viewer_of sess) d))))"
  proof
    assume h: "c \<noteq> [] \<and> new_Date (parseInt c) = ValidDate t \<and> 0 \<le> limit"
    then have "\<not> min 50 limit + 1 < 0" by linarith
    with h show "posts_rows limit (Some c) sess d =
        Inr (take (nat (min 50 limit + 1))
          (order_by_createdAt_desc
            (filter (\<lambda>row. createdAt row < t) (joined_rows (viewer_of sess) d))))"
      by (simp add: posts_rows_cursor feed_candidates_def)
  qed
  from a b c e show ?thesis by blast
qed

theorem posts_page_is_older_than_the_cursor_witness:
  "posts 10 (Some ''3000'') None fresh_db = Inr \<lparr>pp_posts = [row1], hasMore = False\<rparr> \<and>
   parseInt ''3000'' = Some 3000 \<and> createdAt row1 < 3000 \<and>
   posts 1 None None fresh_db = Inr \<lparr>pp_posts = [row2], hasMore = True\<rparr> \<and>
   createdAt row2 = 3000"
proof -
  have "''3000'' \<noteq> [] \<and> posts 10 (Some ''3000'') None fresh_db = Inr \<lparr>pp_posts = [row1], hasMore = False\<rparr> \<longrightarrow>
      (\<exists>t. parseInt ''3000'' = Some t \<and>
           (\<forall>row \<in> set (pp_posts \<lparr>pp_posts = [row1], hasMore = False\<rparr>). createdAt row < t))"
    using posts_page_is_older_than_the_cursor
      [of "''3000''" 10 None fresh_db "\<lparr>pp_posts = [row1], hasMore = False\<rparr>" None
          "\<lparr>pp_posts = [row1], hasMore = False\<rparr>" 3000]
    by (rule conjunct1)
  with posts_cursor_3000 have "\<exists>t. parseInt ''3000'' = Some t \<and> createdAt row1 < t"
    by simp
  with parseInt_3000 have "createdAt row1 < 3000" by simp
  with posts_cursor_3000 parseInt_3000 posts_one created_rows show ?thesis by simp
qed

section \<open>Properties of the user resolvers\<close>

lemma show_int_1: "show_int 1 = ''1''"
  by (simp add: show_int_def show_nat.simps [of "Suc 0"])

lemma parseInt_1: "parseInt ''1'' = Some 1"
  by (simp add: parseInt_def parse_magnitude_def digit_of_def digits_value_def is_ws_def)

lemma find_alice: "User_findOne_id 1 fresh_db = Some alice"
  by (simp add: User_findOne_id_def fresh_db_def alice_def)

lemma forgotPassword_unknown:
  "User_findOne_email e (database c) = None \<Longrightarrow>
   typeorm_forgotPassword P v4 now e c = (c, True) \<and> mikro_forgotPassword P v4 now e c = (c, True)"
  by (simp add: typeorm_forgotPassword_def mikro_forgotPassword_def)

lemma forgotPassword_true:
  "snd (typeorm_forgotPassword P v4 now e c) = True" "snd (mikro_forgotPassword P v4 now e c) = True"
  by (simp_all add: typeorm_forgotPassword_def mikro_forgotPassword_def Let_def split: option.splits)

lemma forgotPassword_known:
  "User_findOne_email e (database c) = Some usr \<Longrightarrow>
   redis (fst (typeorm_forgotPassword P v4 now e c)) (P @ v4) =
     Some (show_int (user_id usr), now + 1000 * 60 * 60 * 24 * 1000) \<and>
   outbox (fst (typeorm_forgotPassword P v4 now e c)) = outbox c @ [(e, reset_link v4)] \<and>
   mikro_forgotPassword P v4 now e c = typeorm_forgotPassword P v4 now e c"
  by (simp add: typeorm_forgotPassword_def mikro_forgotPassword_def Let_def redis_set_ex_def)

lemma forgot_alice:
  "mikro_forgotPassword ''forget-password:'' ''tok'' 0 ''alice@example.com'' ctx0 = (reset_ctx, True)"
  by (simp add: mikro_forgotPassword_def User_findOne_email_def ctx0_def reset_ctx_def
      fresh_db_def alice_def bob_def redis_set_ex_def show_int_1 Let_def)

lemma forgot_nobody:
  "User_findOne_email ''nobody@example.com'' (database ctx0) = None"
  by (simp add: User_findOne_email_def ctx0_def fresh_db_def alice_def bob_def)

text \<open>
  C8. \<open>forgotPassword\<close> returns \<open>true\<close> for every email and every state, in both versions,
  so two calls cannot be told apart by what they return; when no user has the email the
  context is returned as it was: no key is written to the cache and no mail is sent.
\<close>

theorem forgotPassword_gives_nothing_away:
  "snd (typeorm_forgotPassword P v4 now e c) = True \<and>
   snd (mikro_forgotPassword P v4 now e c) = True \<and>
   snd (typeorm_forgotPassword P v4 now e c) = snd (typeorm_forgotPassword P v4' now' e' c') \<and>
   snd (mikro_forgotPassword P v4 now e c) = snd (mikro_forgotPassword P v4' now' e' c') \<and>
   (User_findOne_email e (database c) = None \<longrightarrow>
      typeorm_forgotPassword P v4 now e c = (c, True) \<and>
      mikro_forgotPassword P v4 now e c = (c, True))"
  by (simp add: forgotPassword_true forgotPassword_unknown)

theorem forgotPassword_gives_nothing_away_witness:
  "User_findOne_email ''nobody@example.com'' (database ctx0) = None \<and>
   typeorm_forgotPassword ''forget-password:'' ''tok'' 0 ''nobody@example.com'' ctx0 = (ctx0, True) \<and>
   mikro_forgotPassword ''forget-password:'' ''tok'' 0 ''nobody@example.com'' ctx0 = (ctx0, True) \<and>
   mikro_forgotPassword ''forget-password:'' ''tok'' 0 ''alice@example.com'' ctx0 = (reset_ctx, True)"
  using forgotPassword_gives_nothing_away
    [of "''forget-password:''" "''tok''" 0 "''nobody@example.com''" ctx0 "''tok''" 0
        "''alice@example.com''" ctx0]
    forgot_nobody forgot_alice
  by simp

lemma user_id_update [simp]:
  "find (\<lambda>u. user_id u = n) (map (\<lambda>u. if user_id u = i then u\<lparr>password := pw, user_updatedAt := now\<rparr> else u) us) =
   map_option (\<lambda>u. if user_id u = i then u\<lparr>password := pw, user_updatedAt := now\<rparr> else u)
     (find (\<lambda>u. user_id u = n) us)"
  by (induction us) simp_all

lemma findOne_after_password:
  "User_findOne_id n (User_update_password i pw now d) =
   map_option (\<lambda>u. if user_id u = i then u\<lparr>password := pw, user_updatedAt := now\<rparr> else u)
     (User_findOne_id n d)"
  by (simp add: User_findOne_id_def User_update_password_def)

lemma typeorm_changePassword_deletes:
  "succeeded (typeorm_changePassword P h now tok pw c) \<Longrightarrow>
   redis (fst (typeorm_changePassword P h now tok pw c)) (P @ tok) = None"
  by (auto simp: succeeded_def typeorm_changePassword_def field_error_def Let_def redis_del_def
      split: if_splits option.splits)

lemma typeorm_changePassword_without_key:
  "redis c (P @ tok) = None \<Longrightarrow> is_field_error (typeorm_changePassword P h now tok pw c)"
  by (simp add: is_field_error_def typeorm_changePassword_def field_error_def Let_def redis_get_def)

lemma typeorm_changePassword_single_use:
  assumes "succeeded (typeorm_changePassword P h now tok pw c)"
  shows "is_field_error
           (typeorm_changePassword P h now' tok pw' (fst (typeorm_changePassword P h now tok pw c)))"
  using assms by (intro typeorm_changePassword_without_key typeorm_changePassword_deletes)

lemma typeorm_changePassword_succeeds:
  assumes "5 < length pw" and "redis_get (redis c) now (P @ tok) = Some v" and "v \<noteq> []"
    and "parseInt v = Some n" and "User_findOne_id n (database c) = Some usr"
  shows "typeorm_changePassword P h now tok pw c =
     (c\<lparr>database := User_update_password n (h pw) now (database c),
        redis := redis_del (redis c) (P @ tok),
        session_userId := Some (user_id usr)\<rparr>,
      Inr \<lparr>resp_errors = None, resp_user = Some usr\<rparr>)"
  using assms by (simp add: typeorm_changePassword_def Let_def)

lemma mikro_changePassword_succeeds:
  assumes "5 < length pw" and "redis_get (redis c) now (P @ tok) = Some v" and "v \<noteq> []"
    and "parseInt v = Some n" and "User_findOne_id n (database c) = Some usr"
  shows "mikro_changePassword P h now tok pw c =
     (c\<lparr>database := User_update_password (user_id usr) (h pw) now (database c),
        session_userId := Some (user_id usr)\<rparr>,
      Inr \<lparr>resp_errors = None,
           resp_user = Some (usr\<lparr>password := h pw, user_updatedAt := now\<rparr>)\<rparr>)"
  using assms by (simp add: mikro_changePassword_def Let_def)

lemma mikro_changePassword_keeps_cache:
  "redis (fst (mikro_changePassword P h now tok pw c)) = redis c"
  by (simp add: mikro_changePassword_def Let_def split: option.splits)

lemma mikro_changePassword_again:
  assumes "succeeded (mikro_changePassword P h now tok pw c)" and "5 < length pw'"
  shows "succeeded (mikro_changePassword P h now tok pw' (fst (mikro_changePassword P h now tok pw c)))"
proof -
  from assms(1) obtain v n usr where long: "5 < length pw"
    and v: "redis_get (redis c) now (P @ tok) = Some v" "v \<noteq> []"
    and n: "parseInt v = Some n" and usr: "User_findOne_id n (database c) = Some usr"
    by (auto simp: succeeded_def mikro_changePassword_def field_error_def Let_def
        split: if_splits option.splits)
  let ?c1 = "c\<lparr>database := User_update_password (user_id usr) (h pw) now (database c),
        session_userId := Some (user_id usr)\<rparr>"
  have first: "fst (mikro_changePassword P h now tok pw c) = ?c1"
    using long v n usr by (simp add: mikro_changePassword_succeeds)
  have "redis_get (redis ?c1) now (P @ tok) = Some v" using v by simp
  moreover have "\<exists>usr'. User_findOne_id n (database ?c1) = Some usr'"
    using usr by (simp add: findOne_after_password)
  ultimately show ?thesis
    unfolding first using assms(2) v(2) n
    by (auto simp: succeeded_def mikro_changePassword_succeeds)
qed

lemma reset_get: "redis_get (redis reset_ctx) 5000 ''forget-password:tok'' = Some ''1''"
  by (simp add: redis_get_def reset_ctx_def)

lemma mikro_change_alice:
  "mikro_changePassword ''forget-password:'' example_hash 5000 ''tok'' ''secret1'' reset_ctx =
     (changed_ctx,
      Inr \<lparr>resp_errors = None,
           resp_user = Some (alice\<lparr>password := example_hash ''secret1'', user_updatedAt := 5000\<rparr>)\<rparr>)"
proof -
  have "User_findOne_id 1 (database reset_ctx) = Some alice"
    by (simp add: reset_ctx_def find_alice)
  moreover have "redis_get (redis reset_ctx) 5000 (''forget-password:'' @ ''tok'') = Some ''1''"
    using reset_get by simp
  ultimately have "mikro_changePassword ''forget-password:'' example_hash 5000 ''tok'' ''secret1'' reset_ctx =
     (reset_ctx\<lparr>database := User_update_password (user_id alice) (example_hash ''secret1'') 5000 (database reset_ctx),
        session_userId := Some (user_id alice)\<rparr>,
      Inr \<lparr>resp_errors = None,
           resp_user = Some (alice\<lparr>password := example_hash ''secret1'', user_updatedAt := 5000\<rparr>)\<rparr>)"
    using parseInt_1 by (intro mikro_changePassword_succeeds) simp_all
  then show ?thesis by (simp add: changed_ctx_def alice_def reset_ctx_def)
qed

text \<open>The second version on the same input: the second call is refused.\<close>

lemma typeorm_changePassword_example:
  "succeeded (typeorm_changePassword ''forget-password:'' example_hash 5000 ''tok'' ''secret1'' reset_ctx) \<and>
   is_field_error (typeorm_changePassword ''forget-password:'' example_hash 6000 ''tok'' ''secret2''
     (fst (typeorm_changePassword ''forget-password:'' example_hash 5000 ''tok'' ''secret1''
             reset_ctx)))"
proof -
  have "User_findOne_id 1 (database reset_ctx) = Some alice"
    by (simp add: reset_ctx_def find_alice)
  moreover have "redis_get (redis reset_ctx) 5000 (''forget-password:'' @ ''tok'') = Some ''1''"
    using reset_get by simp
  ultimately have "typeorm_changePassword ''forget-password:'' example_hash 5000 ''tok'' ''secret1'' reset_ctx =
     (reset_ctx\<lparr>database := User_update_password 1 (example_hash ''secret1'') 5000 (database reset_ctx),
        redis := redis_del (redis reset_ctx) (''forget-password:'' @ ''tok''),
        session_userId := Some (user_id alice)\<rparr>,
      Inr \<lparr>resp_errors = None, resp_user = Some alice\<rparr>)"
    using parseInt_1 by (intro typeorm_changePassword_succeeds) simp_all
  then have "succeeded (typeorm_changePassword ''forget-password:'' example_hash 5000 ''tok'' ''secret1'' reset_ctx)"
    by (simp add: succeeded_def)
  then show ?thesis by (simp add: typeorm_changePassword_single_use)
qed

text \<open>
  C2, the first version of \<open>changePassword\<close>: the call with a stored token succeeds and
  leaves the token in the cache, and a second call with the same token succeeds as well.
\<close>

theorem mikro_changePassword_token_is_reusable:
  "succeeded (mikro_changePassword ''forget-password:'' example_hash 5000 ''tok'' ''secret1'' reset_ctx) \<and>
   redis_get
     (redis (fst (mikro_changePassword ''forget-password:'' example_hash 5000 ''tok'' ''secret1''
                    reset_ctx)))
     6000 ''forget-password:tok'' = Some ''1'' \<and>
   succeeded (mikro_changePassword ''forget-password:'' example_hash 6000 ''tok'' ''secret2''
     (fst (mikro_changePassword ''forget-password:'' example_hash 5000 ''tok'' ''secret1''
             reset_ctx))) \<and>
   \<not> is_field_error (mikro_changePassword ''forget-password:'' example_hash 6000 ''tok'' ''secret2''
     (fst (mikro_changePassword ''forget-password:'' example_hash 5000 ''tok'' ''secret1''
             reset_ctx)))"
proof -
  have get: "redis_get (redis changed_ctx) 6000 (''forget-password:'' @ ''tok'') = Some ''1''"
    by (simp add: changed_ctx_def redis_get_def reset_ctx_def)
  have usr: "User_findOne_id 1 (database changed_ctx) =
      Some (alice\<lparr>password := example_hash ''secret1'', user_updatedAt := 5000\<rparr>)"
    by (simp add: changed_ctx_def findOne_after_password find_alice alice_def)
  have second: "mikro_changePassword ''forget-password:'' example_hash 6000 ''tok'' ''secret2'' changed_ctx =
     (changed_ctx\<lparr>database := User_update_password
          (user_id (alice\<lparr>password := example_hash ''secret1'', user_updatedAt := 5000\<rparr>))
          (example_hash ''secret2'') 6000 (database changed_ctx),
        session_userId := Some (user_id (alice\<lparr>password := example_hash ''secret1'', user_updatedAt := 5000\<rparr>))\<rparr>,
      Inr \<lparr>resp_errors = None,
           resp_user = Some (alice\<lparr>password := example_hash ''secret1'', user_updatedAt := 5000\<rparr>
                               \<lparr>password := example_hash ''secret2'', user_updatedAt := 6000\<rparr>)\<rparr>)"
    using get usr parseInt_1 by (intro mikro_changePassword_succeeds) simp_all
  show ?thesis
    using get by (simp add: mikro_change_alice second succeeded_def is_field_error_def)
qed

lemma insert_user_keeps_rows:
  "insert_user uname pw mail now d = (d', Inl err) \<Longrightarrow>
   user_table d' = user_table d \<and> pg_code err = ''23505''"
  by (auto simp: insert_user_def Let_def unique_violation_def split: if_splits)

lemma typeorm_register_collision:
  assumes "validateRegister options = None"
    and "insert_user (in_username options) (h (in_password options)) (in_email options) now
           (database c) = (d', Inl err)"
  shows "typeorm_register validateRegister h now options c =
     (c\<lparr>database := d'\<rparr>,
      Inr (if js_includes (pg_detail err) ''email''
           then field_error ''email'' ''email already exists''
           else field_error ''username'' ''username already taken''))"
    and "user_table d' = user_table (database c)"
  using assms insert_user_keeps_rows [OF assms(2)]
  by (simp_all add: typeorm_register_def Let_def)

lemma mikro_register_collision:
  assumes "validateRegister options = None"
    and "insert_user (in_username options) (h (in_password options)) (in_email options) now
           (database c) = (d', Inl err)"
  shows "mikro_register validateRegister h now options c =
     (c\<lparr>database := d'\<rparr>, Inr (field_error ''username'' ''username already taken''))"
    and "user_table d' = user_table (database c)"
  using assms insert_user_keeps_rows [OF assms(2)]
  by (simp_all add: mikro_register_def Let_def)

lemma insert_carol:
  "insert_user ''carol'' (example_hash ''secret1'') ''alice@example.com'' 5000 fresh_db =
     (fresh_db\<lparr>user_id_seq := 3\<rparr>, Inl (unique_violation ''email'' ''alice@example.com''))"
  by (simp add: insert_user_def Let_def fresh_db_def alice_def bob_def)

lemma detail_mentions_email:
  "js_includes (pg_detail (unique_violation ''email'' ''alice@example.com'')) ''email''"
  by (simp add: unique_violation_def)

text \<open>
  C3, the first version of \<open>register\<close>: carol registers with the email of alice. The
  username is free, the insert fails on the email with code 23505 and a detail line that
  mentions the email, no row is added, and the error names the field \<open>username\<close>.
\<close>

theorem mikro_register_blames_username_for_email:
  "\<not> list_ex (\<lambda>u. username u = ''carol'') (user_table (database ctx0)) \<and>
   list_ex (\<lambda>u. user_email u = ''alice@example.com'') (user_table (database ctx0)) \<and>
   snd (insert_user ''carol'' (example_hash ''secret1'') ''alice@example.com'' 5000 (database ctx0)) =
     Inl \<lparr>pg_code = ''23505'', pg_detail = ''Key (email)=(alice@example.com) already exists.''\<rparr> \<and>
   js_includes ''Key (email)=(alice@example.com) already exists.'' ''email'' \<and>
   snd (mikro_register no_errors example_hash 5000 carol_with_alices_email ctx0) =
     Inr \<lparr>resp_errors = Some [\<lparr>field = ''username'', message = ''username already taken''\<rparr>],
          resp_user = None\<rparr> \<and>
   user_table (database (fst (mikro_register no_errors example_hash 5000 carol_with_alices_email ctx0))) =
     user_table (database ctx0)"
proof -
  have ins: "insert_user (in_username carol_with_alices_email)
       (example_hash (in_password carol_with_alices_email)) (in_email carol_with_alices_email) 5000
       (database ctx0) =
     (fresh_db\<lparr>user_id_seq := 3\<rparr>, Inl (unique_violation ''email'' ''alice@example.com''))"
    by (simp add: carol_with_alices_email_def ctx0_def insert_carol)
  have v: "no_errors carol_with_alices_email = None" by (simp add: no_errors_def)
  note r = mikro_register_collision
    [where validateRegister = no_errors and options = carol_with_alices_email
       and h = example_hash, OF v ins]
  have a: "\<not> list_ex (\<lambda>u. username u = ''carol'') (user_table (database ctx0))"
    by (simp add: ctx0_def fresh_db_def alice_def bob_def)
  have b: "list_ex (\<lambda>u. user_email u = ''alice@example.com'') (user_table (database ctx0))"
    by (simp add: ctx0_def fresh_db_def alice_def bob_def)
  have c: "snd (insert_user ''carol'' (example_hash ''secret1'') ''alice@example.com'' 5000
                 (database ctx0)) =
      Inl \<lparr>pg_code = ''23505'', pg_detail = ''Key (email)=(alice@example.com) already exists.''\<rparr>"
    by (simp add: ctx0_def insert_carol unique_violation_def)
  have d: "js_includes ''Key (email)=(alice@example.com) already exists.'' ''email''"
    by simp
  have e: "snd (mikro_register no_errors example_hash 5000 carol_with_alices_email ctx0) =
     Inr \<lparr>resp_errors = Some [\<lparr>field = ''username'', message = ''username already taken''\<rparr>],
          resp_user = None\<rparr>"
    by (simp add: r(1) field_error_def)
  have f: "user_table (database (fst (mikro_register no_errors example_hash 5000
              carol_with_alices_email ctx0))) = user_table (database ctx0)"
    using r(2) by (simp add: r(1))
  from a b c d e f show ?thesis by (intro conjI)
qed

text \<open>
  The second version of \<open>register\<close> tests the whole detail line, which quotes the value:
  a second user who asks for the taken username \<open>email\<close> is told that the email exists.
\<close>

lemma typeorm_register_username_containing_email:
  "list_ex (\<lambda>u. username u = ''email'') (user_table (database ctx3)) \<and>
   \<not> list_ex (\<lambda>u. user_email u = ''new@example.com'') (user_table (database ctx3)) \<and>
   snd (insert_user ''email'' (example_hash ''secret1'') ''new@example.com'' 5000 (database ctx3)) =
     Inl \<lparr>pg_code = ''23505'', pg_detail = ''Key (username)=(email) already exists.''\<rparr> \<and>
   snd (typeorm_register no_errors example_hash 5000 second_email_user ctx3) =
     Inr \<lparr>resp_errors = Some [\<lparr>field = ''email'', message = ''email already exists''\<rparr>],
          resp_user = None\<rparr>"
  by (simp add: typeorm_register_def insert_user_def Let_def no_errors_def second_email_user_def
      ctx3_def three_users_db_def alice_def bob_def emil_def unique_violation_def field_error_def)

text \<open>The second version names the email when the insert fails on the email.\<close>

lemma typeorm_register_email_collision:
  "snd (typeorm_register no_errors example_hash 5000 carol_with_alices_email ctx0) =
     Inr \<lparr>resp_errors = Some [\<lparr>field = ''email'', message = ''email already exists''\<rparr>],
          resp_user = None\<rparr>"
  by (simp add: typeorm_register_def insert_user_def Let_def no_errors_def carol_with_alices_email_def
      ctx0_def fresh_db_def alice_def bob_def unique_violation_def field_error_def)

text \<open>
  C9. The resolver returns the stored email exactly when the session carries the id of
  the user it resolves; for every other session, and for a request with no session user,
  it returns the empty string, and what it returns then does not depend on the stored
  email.
\<close>

theorem email_is_shown_to_its_owner_only:
  "(sess = Some (user_id usr) \<longrightarrow> email usr sess = user_email usr) \<and>
   (sess \<noteq> Some (user_id usr) \<longrightarrow> email usr sess = []) \<and>
   email usr None = [] \<and>
   (sess \<noteq> Some (user_id usr) \<longrightarrow> email (usr\<lparr>user_email := e\<rparr>) sess = email usr sess)"
  by (simp add: email_def)

theorem email_is_shown_to_its_owner_only_witness:
  "email alice (Some 1) = ''alice@example.com'' \<and> email alice (Some 2) = [] \<and>
   email alice None = [] \<and>
   email (alice\<lparr>user_email := ''other@example.com''\<rparr>) (Some 2) = email alice (Some 2)"
  using email_is_shown_to_its_owner_only [of "Some 1" alice "''other@example.com''"]
    email_is_shown_to_its_owner_only [of "Some 2" alice "''other@example.com''"]
  by (simp add: alice_def)

section \<open>Properties of updatePost\<close>






end
